theory Spec2Isabelle
  imports Main
begin

section \<open>Browser tracing integration: data model\<close>

text \<open>
  The development embeds \<^verbatim>\<open>packages/tracing-internal/src/browser/browserTracingIntegration.ts\<close>.
  Numbers that the code only compares, copies or feeds to \<^verbatim>\<open>Math.max\<close> (durations, start
  times and timeouts in milliseconds) are integers here; interaction ids are natural numbers
  (the browser's \<^verbatim>\<open>unsigned long long\<close>); \<^verbatim>\<open>undefined\<close> is \<open>None\<close>.
\<close>

subsection \<open>Transaction contexts and the latest route\<close>

text \<open>
  The fields of \<^verbatim>\<open>TransactionContext\<close> that the file reads or writes. The three
  \<open>_source\<close> fields are the entries under \<^verbatim>\<open>SEMANTIC_ATTRIBUTE_SENTRY_SOURCE\<close> of
  \<^verbatim>\<open>attributes\<close> and \<^verbatim>\<open>data\<close>, and \<^verbatim>\<open>metadata.source\<close>.
\<close>

record transactionContext =
  name :: string
  op :: "string option"
  sampled :: "bool option"
  trimEnd :: "bool option"
  traceId :: "string option"
  parentSpanId :: "string option"
  parentSampled :: "bool option"
  dynamicSamplingContext :: "string option"
  attributes_source :: "string option"
  data_source :: "string option"
  metadata_source :: "string option"

text \<open>The shared cell \<^verbatim>\<open>latestRoute\<close> with its two fields \<^verbatim>\<open>name\<close> and \<^verbatim>\<open>context\<close>.\<close>

record latestRoute =
  route_name :: "string option"
  route_context :: "transactionContext option"

subsection \<open>Performance entries and interaction records\<close>

record timing =
  duration :: int
  startTime :: int

text \<open>A \<^verbatim>\<open>PerformanceEventTiming\<close>: an entry that has a \<^verbatim>\<open>duration\<close>.\<close>

record performanceEventTiming = timing +
  entryType :: string
  interactionId :: "nat option"

text \<open>
  \<^verbatim>\<open>isPerformanceEventTiming\<close> tests \<^verbatim>\<open>'duration' in entry\<close>; an entry without that
  property is \<open>OtherEntry\<close>.
\<close>

datatype performanceEntry = EventTiming performanceEventTiming | OtherEntry

fun isPerformanceEventTiming :: "performanceEntry \<Rightarrow> bool" where
  "isPerformanceEventTiming (EventTiming _) = True"
| "isPerformanceEventTiming OtherEntry = False"

text \<open>
  A value of \<^verbatim>\<open>InteractionRouteNameMapping\<close>. The user, the active transaction and the
  replay id are opaque: a name, a reference and an id.
\<close>

record interaction = timing +
  routeName :: string
  parentContext :: transactionContext
  user :: "string option"
  activeTransaction :: "nat option"
  replayId :: "string option"

text \<open>
  The object \<^verbatim>\<open>interactionIdToRouteNameMapping\<close> is an association list in the order of
  \<^verbatim>\<open>Object.keys\<close>: keys that are array indices (below \<open>2^32 - 1\<close>) ascending, then the
  other keys in the order of their creation. The reduction that finds the shortest interaction
  walks the keys in this order, so ties are decided by it.
\<close>

type_synonym interactionRouteNameMapping = "(nat \<times> interaction) list"

definition isArrayIndex :: "nat \<Rightarrow> bool" where
  "isArrayIndex k = (k < 2 ^ 32 - 1)"

text \<open>Creating the property \<open>k\<close> on an object that does not have it.\<close>

fun createProperty :: "nat \<Rightarrow> 'v \<Rightarrow> (nat \<times> 'v) list \<Rightarrow> (nat \<times> 'v) list" where
  "createProperty k v [] = [(k, v)]"
| "createProperty k v ((k', v') # rest) =
     (if isArrayIndex k \<and> (\<not> isArrayIndex k' \<or> k < k')
      then (k, v) # (k', v') # rest
      else (k', v') # createProperty k v rest)"

text \<open>\<^verbatim>\<open>obj[k] = v\<close>: an existing property keeps its place, a new one is created.\<close>

definition assign :: "nat \<Rightarrow> 'v \<Rightarrow> (nat \<times> 'v) list \<Rightarrow> (nat \<times> 'v) list" where
  "assign k v m =
     (if k \<in> set (map fst m) then map (\<lambda>(k', v'). if k' = k then (k', v) else (k', v')) m
      else createProperty k v m)"

text \<open>\<^verbatim>\<open>delete obj[k]\<close>.\<close>

definition delete :: "nat \<Rightarrow> (nat \<times> 'v) list \<Rightarrow> (nat \<times> 'v) list" where
  "delete k m = filter (\<lambda>(k', _). k' \<noteq> k) m"

section \<open>The interaction listener for INP: \<^verbatim>\<open>registerInpInteractionListener\<close>\<close>

definition MAX_INTERACTIONS :: nat where
  "MAX_INTERACTIONS = 10"

text \<open>
  What one call of \<^verbatim>\<open>handleEntries\<close> reads before it walks the entries: the replay id of
  the Replay integration, the active transaction and the user of the current scope, and the
  cell \<^verbatim>\<open>latestRoute\<close>, which no entry of the batch changes.
\<close>

record entriesEnv =
  env_replayId :: "string option"
  env_activeTransaction :: "nat option"
  env_user :: "string option"
  env_latestRoute :: latestRoute

text \<open>
  \<^verbatim>\<open>keys.reduce((a, b) => m[a].duration < m[b].duration ? a : b)\<close>, on the pairs of key and
  record: the accumulator is kept only when it is strictly shorter, so among records of the
  same shortest duration the last in key order is chosen.
\<close>

definition shorter :: "nat \<times> interaction \<Rightarrow> nat \<times> interaction \<Rightarrow> nat \<times> interaction" where
  "shorter a b = (if duration (snd a) < duration (snd b) then a else b)"

definition minInteraction :: "interactionRouteNameMapping \<Rightarrow> (nat \<times> interaction) option" where
  "minInteraction m = (case m of [] \<Rightarrow> None | x # xs \<Rightarrow> Some (foldl shorter x xs))"

definition minInteractionId :: "interactionRouteNameMapping \<Rightarrow> nat option" where
  "minInteractionId m = map_option fst (minInteraction m)"

text \<open>The test of a \<^verbatim>\<open>first-input\<close> entry: some record has its duration and start time.\<close>

definition matchingEntry :: "performanceEventTiming \<Rightarrow> interactionRouteNameMapping \<Rightarrow> bool" where
  "matchingEntry entry m =
     list_ex (\<lambda>i. duration i = duration entry \<and> startTime i = startTime entry) (map snd m)"

text \<open>The early return of a \<^verbatim>\<open>first-input\<close> entry that matches a record.\<close>

definition duplicateFirstInput :: "performanceEventTiming \<Rightarrow> interactionRouteNameMapping \<Rightarrow> bool" where
  "duplicateFirstInput entry m = (entryType entry = ''first-input'' \<and> matchingEntry entry m)"

text \<open>\<^verbatim>\<open>existingInteraction.duration = Math.max(existingInteraction.duration, duration)\<close>.\<close>

definition mergeDuration :: "nat \<Rightarrow> int \<Rightarrow> interactionRouteNameMapping \<Rightarrow> interactionRouteNameMapping" where
  "mergeDuration k d m =
     map (\<lambda>(k', i). if k' = k then (k', i\<lparr>duration := max (duration i) d\<rparr>) else (k', i)) m"

text \<open>
  The condition under which a new interaction is added:
  \<^verbatim>\<open>keys.length < MAX_INTERACTIONS || minInteractionId === undefined || duration > m[minInteractionId].duration\<close>.
\<close>

definition admits :: "performanceEventTiming \<Rightarrow> interactionRouteNameMapping \<Rightarrow> bool" where
  "admits entry m =
     (length m < MAX_INTERACTIONS
      \<or> (case minInteraction m of
            None \<Rightarrow> True
          | Some (_, shortest) \<Rightarrow> duration entry > duration shortest))"

text \<open>
  \<^verbatim>\<open>if (minInteractionId && Object.keys(m).length >= MAX_INTERACTIONS) delete m[minInteractionId]\<close>;
  a key is a non-empty string, so it is truthy whenever it is defined.
\<close>

definition evictShortest :: "interactionRouteNameMapping \<Rightarrow> interactionRouteNameMapping" where
  "evictShortest m =
     (case minInteractionId m of
        Some k \<Rightarrow> if length m \<ge> MAX_INTERACTIONS then delete k m else m
      | None \<Rightarrow> m)"

text \<open>The record that is stored for a new interaction.\<close>

definition newInteraction ::
  "entriesEnv \<Rightarrow> performanceEventTiming \<Rightarrow> string \<Rightarrow> transactionContext \<Rightarrow> interaction" where
  "newInteraction env entry rn pc =
     \<lparr>duration = duration entry, startTime = startTime entry,
      routeName = rn, parentContext = pc, user = env_user env,
      activeTransaction = env_activeTransaction env, replayId = env_replayId env\<rparr>"

text \<open>
  The body of \<^verbatim>\<open>entries.forEach\<close> for one event timing entry (the operation the
  specification calls \<open>observe\<close>). A string is truthy when it is not empty; a record and a
  context are always truthy.
\<close>

definition observe ::
  "entriesEnv \<Rightarrow> performanceEventTiming \<Rightarrow> interactionRouteNameMapping \<Rightarrow> interactionRouteNameMapping" where
  "observe env entry m =
     (case interactionId entry of
        None \<Rightarrow> m
      | Some iid \<Rightarrow>
          if duplicateFirstInput entry m then m
          else if iid = 0 then m
          else (case map_of m iid of
                  Some existingInteraction \<Rightarrow> mergeDuration iid (duration entry) m
                | None \<Rightarrow>
                    if admits entry m
                    then (case (route_name (env_latestRoute env), route_context (env_latestRoute env)) of
                            (Some rn, Some pc) \<Rightarrow>
                              if rn \<noteq> [] then assign iid (newInteraction env entry rn pc) (evictShortest m)
                              else m
                          | _ \<Rightarrow> m)
                    else m))"

definition handleEntry ::
  "entriesEnv \<Rightarrow> interactionRouteNameMapping \<Rightarrow> performanceEntry \<Rightarrow> interactionRouteNameMapping" where
  "handleEntry env m entry = (case entry of EventTiming e \<Rightarrow> observe env e m | OtherEntry \<Rightarrow> m)"

definition handleEntries ::
  "entriesEnv \<Rightarrow> performanceEntry list \<Rightarrow> interactionRouteNameMapping \<Rightarrow> interactionRouteNameMapping" where
  "handleEntries env entries m = foldl (handleEntry env) m entries"

text \<open>
  The mapping starts empty and only \<^verbatim>\<open>handleEntries\<close> writes to it: a history of the cache
  is a list of calls, each with what it read and the batch it was given.
\<close>

definition afterCalls :: "(entriesEnv \<times> performanceEntry list) list \<Rightarrow> interactionRouteNameMapping" where
  "afterCalls calls = foldl (\<lambda>m (env, entries). handleEntries env entries m) [] calls"

text \<open>
  The test \<^verbatim>\<open>routeName && parentContext\<close> on the cell: a name that is defined and not
  empty, and a context.
\<close>

definition routeAvailable :: "latestRoute \<Rightarrow> bool" where
  "routeAvailable r =
     (case (route_name r, route_context r) of (Some rn, Some pc) \<Rightarrow> rn \<noteq> [] | _ \<Rightarrow> False)"

subsection \<open>Sample values\<close>

definition homeContext :: transactionContext where
  "homeContext =
     \<lparr>name = ''/home'', op = Some ''pageload'', sampled = None, trimEnd = Some True,
      traceId = None, parentSpanId = None, parentSampled = None, dynamicSamplingContext = None,
      attributes_source = Some ''url'', data_source = None, metadata_source = None\<rparr>"

definition homeRoute :: latestRoute where
  "homeRoute = \<lparr>route_name = Some ''/home'', route_context = Some homeContext\<rparr>"

definition noRoute :: latestRoute where
  "noRoute = \<lparr>route_name = None, route_context = None\<rparr>"

definition homeEnv :: entriesEnv where
  "homeEnv = \<lparr>env_replayId = None, env_activeTransaction = None, env_user = None,
      env_latestRoute = homeRoute\<rparr>"

definition noRouteEnv :: entriesEnv where
  "noRouteEnv = \<lparr>env_replayId = None, env_activeTransaction = None, env_user = None,
      env_latestRoute = noRoute\<rparr>"

definition eventEntry :: "nat \<Rightarrow> int \<Rightarrow> int \<Rightarrow> performanceEventTiming" where
  "eventEntry iid d s = \<lparr>duration = d, startTime = s, entryType = ''event'', interactionId = Some iid\<rparr>"

definition firstInputEntry :: "nat \<Rightarrow> int \<Rightarrow> int \<Rightarrow> performanceEventTiming" where
  "firstInputEntry iid d s =
     \<lparr>duration = d, startTime = s, entryType = ''first-input'', interactionId = Some iid\<rparr>"

definition homeInteraction :: "int \<Rightarrow> int \<Rightarrow> interaction" where
  "homeInteraction d s =
     \<lparr>duration = d, startTime = s, routeName = ''/home'', parentContext = homeContext,
      user = None, activeTransaction = None, replayId = None\<rparr>"


text \<open>The key and the record stored for an entry, as a pair.\<close>

definition recordOf :: "entriesEnv \<Rightarrow> string \<Rightarrow> transactionContext \<Rightarrow> performanceEventTiming \<Rightarrow> nat \<times> interaction" where
  "recordOf env rn pc e = (the (interactionId e), newInteraction env e rn pc)"

text \<open>Caches and batches used as examples.\<close>

definition tenEvents :: "performanceEventTiming list" where
  "tenEvents = map (\<lambda>i. eventEntry i (int i) 100) [1, 2, 3, 4, 5, 6, 7, 8, 9, 10]"

definition tenRecords :: interactionRouteNameMapping where
  "tenRecords = map (\<lambda>i. (i, homeInteraction (int i) 100)) [1, 2, 3, 4, 5, 6, 7, 8, 9, 10]"

definition fifteenEvents :: "performanceEventTiming list" where
  "fifteenEvents = map (\<lambda>j. eventEntry (100 + 7 * j) (int j + 1) (int j * 16)) [0..<15]"

definition twoRecords :: interactionRouteNameMapping where
  "twoRecords = [(1, homeInteraction 5 0), (2, homeInteraction 9 3)]"

section \<open>Objects with optional keys\<close>

text \<open>
  A key of an object given by the caller is absent, present with the value \<^verbatim>\<open>undefined\<close>, or
  present with a value. Reading the key gives \<^verbatim>\<open>undefined\<close> in the first two cases; a spread
  \<^verbatim>\<open>{ ...defaults, ...given }\<close> keeps the default only for an absent key.
\<close>

datatype 'a keyValue = Absent | IsUndefined | Is 'a

definition valueOf :: "'a keyValue \<Rightarrow> 'a option" where
  "valueOf given = (case given of Is v \<Rightarrow> Some v | _ \<Rightarrow> None)"

definition spread :: "'a option \<Rightarrow> 'a keyValue \<Rightarrow> 'a option" where
  "spread dflt given = (case given of Absent \<Rightarrow> dflt | IsUndefined \<Rightarrow> None | Is v \<Rightarrow> Some v)"

definition truthy :: "bool option \<Rightarrow> bool" where
  "truthy b = (b = Some True)"

section \<open>Construction of the integration: \<^verbatim>\<open>browserTracingIntegration\<close>\<close>

text \<open>
  What \<^verbatim>\<open>beforeStartSpan\<close> does with the context it is given: the context object as the
  callback leaves it (it may change it in place), and the object it returns when that is
  another object than its argument.
\<close>

record callbackResult =
  argumentAfter :: transactionContext
  returned :: "transactionContext option"

record experimentOptions =
  enableInteractions :: "bool option"

text \<open>
  The options that the functions below read, after the spread: every value may be
  \<^verbatim>\<open>undefined\<close>. The timeouts are numbers of milliseconds; the defaults of the three timeouts
  are the \<^verbatim>\<open>TRACING_DEFAULTS\<close> that the doc comments of \<^verbatim>\<open>BrowserTracingOptions\<close> give (1000,
  30000, 5000). The sample rate of interactions and the options of request instrumentation are
  only passed on to collaborators and are left out.
\<close>

record browserTracingOptions =
  idleTimeout :: "int option"
  finalTimeout :: "int option"
  heartbeatInterval :: "int option"
  instrumentPageLoad :: "bool option"
  instrumentNavigation :: "bool option"
  markBackgroundSpan :: "bool option"
  enableLongTask :: "bool option"
  enableInp :: "bool option"
  experiments :: "experimentOptions option"
  beforeStartSpan :: "(transactionContext \<Rightarrow> callbackResult) option"

text \<open>The argument \<^verbatim>\<open>_options\<close>, a \<^verbatim>\<open>Partial<BrowserTracingOptions>\<close>.\<close>

record partialOptions =
  given_idleTimeout :: "int keyValue"
  given_finalTimeout :: "int keyValue"
  given_heartbeatInterval :: "int keyValue"
  given_instrumentPageLoad :: "bool keyValue"
  given_instrumentNavigation :: "bool keyValue"
  given_markBackgroundSpan :: "bool keyValue"
  given_enableLongTask :: "bool keyValue"
  given_enableInp :: "bool keyValue"
  given_experiments :: "experimentOptions keyValue"
  given_beforeStartSpan :: "(transactionContext \<Rightarrow> callbackResult) keyValue"

definition DEFAULT_BROWSER_TRACING_OPTIONS :: browserTracingOptions where
  "DEFAULT_BROWSER_TRACING_OPTIONS =
     \<lparr>idleTimeout = Some 1000, finalTimeout = Some 30000, heartbeatInterval = Some 5000,
      instrumentPageLoad = Some True, instrumentNavigation = Some True,
      markBackgroundSpan = Some True, enableLongTask = Some True, enableInp = Some False,
      experiments = Some \<lparr>enableInteractions = None\<rparr>, beforeStartSpan = None\<rparr>"

text \<open>\<^verbatim>\<open>{ ...DEFAULT_BROWSER_TRACING_OPTIONS, ..._options }\<close>.\<close>

definition mergeOptions :: "partialOptions \<Rightarrow> browserTracingOptions" where
  "mergeOptions given =
     \<lparr>idleTimeout = spread (idleTimeout DEFAULT_BROWSER_TRACING_OPTIONS) (given_idleTimeout given),
      finalTimeout = spread (finalTimeout DEFAULT_BROWSER_TRACING_OPTIONS) (given_finalTimeout given),
      heartbeatInterval =
        spread (heartbeatInterval DEFAULT_BROWSER_TRACING_OPTIONS) (given_heartbeatInterval given),
      instrumentPageLoad =
        spread (instrumentPageLoad DEFAULT_BROWSER_TRACING_OPTIONS) (given_instrumentPageLoad given),
      instrumentNavigation =
        spread (instrumentNavigation DEFAULT_BROWSER_TRACING_OPTIONS) (given_instrumentNavigation given),
      markBackgroundSpan =
        spread (markBackgroundSpan DEFAULT_BROWSER_TRACING_OPTIONS) (given_markBackgroundSpan given),
      enableLongTask = spread (enableLongTask DEFAULT_BROWSER_TRACING_OPTIONS) (given_enableLongTask given),
      enableInp = spread (enableInp DEFAULT_BROWSER_TRACING_OPTIONS) (given_enableInp given),
      experiments = spread (experiments DEFAULT_BROWSER_TRACING_OPTIONS) (given_experiments given),
      beforeStartSpan =
        spread (beforeStartSpan DEFAULT_BROWSER_TRACING_OPTIONS) (given_beforeStartSpan given)\<rparr>"

text \<open>
  What the call returns and what its closure holds from the start: the name, the merged
  options, the empty mapping of interactions and the empty cell of the latest route.
\<close>

record integration =
  integration_name :: string
  options :: browserTracingOptions
  interactionIdToRouteNameMapping :: interactionRouteNameMapping
  initialRoute :: latestRoute

definition BROWSER_TRACING_INTEGRATION_ID :: string where
  "BROWSER_TRACING_INTEGRATION_ID = ''BrowserTracing''"

text \<open>
  An exception: the \<^verbatim>\<open>TypeError\<close> of reading a property of \<^verbatim>\<open>undefined\<close>, or whatever a
  collaborator throws.
\<close>

datatype error = TypeError | Thrown string

text \<open>
  The collaborators that the construction calls are taken as parameters: for each, \<open>None\<close>
  when the call returns and the exception when it throws. None of them is given a timeout.
\<close>

record collaborators =
  addTracingExtensions :: "string option"
  startTrackingWebVitals :: "string option"
  startTrackingINP :: "string option"
  startTrackingLongTasks :: "string option"
  startTrackingInteractions :: "string option"

definition call :: "string option \<Rightarrow> error + 'a \<Rightarrow> error + 'a" where
  "call outcome rest = (case outcome of Some exception \<Rightarrow> Inl (Thrown exception) | None \<Rightarrow> rest)"

definition callIf :: "bool \<Rightarrow> string option \<Rightarrow> error + 'a \<Rightarrow> error + 'a" where
  "callIf condition outcome rest = (if condition then call outcome rest else rest)"

text \<open>
  The body of \<^verbatim>\<open>browserTracingIntegration\<close>, in the order of its statements. The result is
  \<open>Inr\<close> of the integration or \<open>Inl\<close> of the exception thrown. The read of
  \<^verbatim>\<open>options._experiments.enableInteractions\<close> throws when \<^verbatim>\<open>_experiments\<close> was given as
  \<^verbatim>\<open>undefined\<close>. No statement reads a timeout.
\<close>

definition browserTracingIntegration :: "collaborators \<Rightarrow> partialOptions \<Rightarrow> error + integration" where
  "browserTracingIntegration c given =
     call (addTracingExtensions c)
       (let options = mergeOptions given in
        call (startTrackingWebVitals c)
          (callIf (truthy (enableInp options)) (startTrackingINP c)
             (callIf (truthy (enableLongTask options)) (startTrackingLongTasks c)
                (case experiments options of
                   None \<Rightarrow> Inl TypeError
                 | Some ex \<Rightarrow>
                     callIf (truthy (enableInteractions ex)) (startTrackingInteractions c)
                       (Inr \<lparr>integration_name = BROWSER_TRACING_INTEGRATION_ID,
                             options = options,
                             interactionIdToRouteNameMapping = [],
                             initialRoute = \<lparr>route_name = None, route_context = None\<rparr>\<rparr>)))))"

section \<open>Idle transactions\<close>

datatype finishReason =
  IdleTimeout | FinalTimeout | HeartbeatFailed | External | InteractionInterrupted | Cancelled

text \<open>
  An idle transaction as this file and the specification see it: the context and the
  arguments that \<^verbatim>\<open>startIdleTransaction\<close> is given, the finish reason (\<open>None\<close> while the span
  is live; the specification sets it exactly once, together with the end time), and the two
  fields of the heartbeat clock.
\<close>

record idleTransaction =
  tx_context :: transactionContext
  tx_idleTimeout :: "int option"
  tx_finalTimeout :: "int option"
  tx_heartbeatInterval :: "int option"
  delayAutoFinishUntilSignal :: bool
  finishReason :: "finishReason option"
  lastDuration :: int
  heartbeatMissCount :: nat

text \<open>
  Modelled from the spec: \<^verbatim>\<open>startIdleTransaction\<close> (in \<^verbatim>\<open>@sentry/core\<close>, not in the
  sources at hand). The specification's \<open>start\<close> creates a span that is not finished, with
  a fresh clock: no duration recorded beyond the start and no heartbeat missed.
\<close>

definition startIdleTransaction ::
  "transactionContext \<Rightarrow> int option \<Rightarrow> int option \<Rightarrow> int option \<Rightarrow> bool \<Rightarrow> idleTransaction" where
  "startIdleTransaction ctx idle final heartbeat delay =
     \<lparr>tx_context = ctx, tx_idleTimeout = idle, tx_finalTimeout = final,
      tx_heartbeatInterval = heartbeat, delayAutoFinishUntilSignal = delay,
      finishReason = None, lastDuration = 0, heartbeatMissCount = 0\<rparr>"

text \<open>
  Modelled from the spec: the methods \<^verbatim>\<open>end\<close> and \<^verbatim>\<open>setFinishReason\<close> of the idle
  transaction (in \<^verbatim>\<open>@sentry/core\<close>, not in the sources at hand). The specification's
  \<open>requestFinish(reason)\<close> finalizes the span with the given reason; finishing a finished
  span again is a no-op. A bare \<^verbatim>\<open>span.end()\<close> is the finish with the reason \<open>external\<close>,
  and \<^verbatim>\<open>setFinishReason(r)\<close> followed by \<^verbatim>\<open>end()\<close> is the finish with the reason \<open>r\<close>.
\<close>

definition requestFinish :: "finishReason \<Rightarrow> idleTransaction \<Rightarrow> idleTransaction" where
  "requestFinish reason t = (if finishReason t = None then t\<lparr>finishReason := Some reason\<rparr> else t)"

text \<open>
  Modelled from the spec: the heartbeat of the idle transaction (in \<^verbatim>\<open>@sentry/core\<close>, not
  in the sources at hand). On each tick the duration to date is compared with the duration
  recorded at the previous tick: an unchanged duration is one more miss, a changed one resets
  the count of misses to zero; the third miss in a row finishes the span with the reason
  \<open>heartbeatFailed\<close>. A finished span ignores the tick.
\<close>

definition heartbeatTick :: "int \<Rightarrow> idleTransaction \<Rightarrow> idleTransaction" where
  "heartbeatTick durationToDate t =
     (if finishReason t \<noteq> None then t
      else
        let misses = (if durationToDate = lastDuration t then heartbeatMissCount t + 1 else 0);
            t' = t\<lparr>lastDuration := durationToDate, heartbeatMissCount := misses\<rparr>
        in if misses \<ge> 3 then t'\<lparr>finishReason := Some HeartbeatFailed\<rparr> else t')"

section \<open>The state of the integration after setup\<close>

text \<open>
  The transactions created so far are kept in a store; a reference to a transaction is its
  index. \<open>activeSpan\<close> is the variable of \<^verbatim>\<open>afterAllSetup\<close>,
  \<open>inflightInteractionTransaction\<close> the variable of \<^verbatim>\<open>registerInteractionListener\<close>, and
  \<open>latest\<close> the cell \<^verbatim>\<open>latestRoute\<close> that both and the interaction cache share.
\<close>

record tracingState =
  transactions :: "idleTransaction list"
  activeSpan :: "nat option"
  inflightInteractionTransaction :: "nat option"
  latest :: latestRoute

definition initialState :: tracingState where
  "initialState =
     \<lparr>transactions = [], activeSpan = None, inflightInteractionTransaction = None,
      latest = \<lparr>route_name = None, route_context = None\<rparr>\<rparr>"

text \<open>A method call on the transaction behind a reference; a dangling reference has no object.\<close>

definition onTransaction :: "nat \<Rightarrow> (idleTransaction \<Rightarrow> idleTransaction) \<Rightarrow> tracingState \<Rightarrow> tracingState" where
  "onTransaction i f st =
     (if i < length (transactions st)
      then st\<lparr>transactions := (transactions st)[i := f (transactions st ! i)]\<rparr>
      else st)"

definition lookupTransaction :: "tracingState \<Rightarrow> nat \<Rightarrow> idleTransaction option" where
  "lookupTransaction st i = (if i < length (transactions st) then Some (transactions st ! i) else None)"

subsection \<open>\<^verbatim>\<open>_createRouteTransaction\<close>\<close>

text \<open>
  The \<^verbatim>\<open>StartSpanOptions\<close> that a start event carries. The keys that a spread sets against
  a default are three-valued; for the others an absent key and \<^verbatim>\<open>undefined\<close> read the same.
\<close>

record startSpanOptions =
  opt_name :: string
  opt_op :: "string keyValue"
  opt_sampled :: "bool option"
  opt_trimEnd :: "bool keyValue"
  opt_traceId :: "string keyValue"
  opt_parentSpanId :: "string keyValue"
  opt_parentSampled :: "bool keyValue"
  opt_dynamicSamplingContext :: "string option"
  opt_attributes_source :: "string option"
  opt_data_source :: "string option"
  opt_metadata_source :: "string option"

text \<open>
  The result of \<^verbatim>\<open>propagationContextFromHeaders\<close> on the two meta tags of the page, which
  the function reads for a pageload.
\<close>

record propagation =
  prop_traceId :: "string option"
  prop_dsc :: "string option"
  prop_parentSpanId :: "string option"
  prop_sampled :: "bool option"

text \<open>\<^verbatim>\<open>{ op: defaultOp, ...context }\<close>: the key is present afterwards, with the given value.\<close>

definition withDefaultOp :: "string \<Rightarrow> startSpanOptions \<Rightarrow> startSpanOptions" where
  "withDefaultOp defaultOp ctx =
     ctx\<lparr>opt_op := (case opt_op ctx of Absent \<Rightarrow> Is defaultOp | given \<Rightarrow> given)\<rparr>"

text \<open>
  For a pageload the propagation context goes first and the context's own keys override it,
  then the dynamic sampling context and \<^verbatim>\<open>trimEnd: true\<close> are set; otherwise
  \<^verbatim>\<open>trimEnd: true\<close> goes first and the context overrides it.
\<close>

definition expandContext :: "propagation \<Rightarrow> startSpanOptions \<Rightarrow> transactionContext" where
  "expandContext p ctx =
     (if opt_op ctx = Is ''pageload''
      then \<lparr>name = opt_name ctx, op = valueOf (opt_op ctx), sampled = opt_sampled ctx,
            trimEnd = Some True,
            traceId = spread (prop_traceId p) (opt_traceId ctx),
            parentSpanId = spread (prop_parentSpanId p) (opt_parentSpanId ctx),
            parentSampled = spread (prop_sampled p) (opt_parentSampled ctx),
            dynamicSamplingContext = prop_dsc p,
            attributes_source = opt_attributes_source ctx, data_source = opt_data_source ctx,
            metadata_source = opt_metadata_source ctx\<rparr>
      else \<lparr>name = opt_name ctx, op = valueOf (opt_op ctx), sampled = opt_sampled ctx,
            trimEnd = spread (Some True) (opt_trimEnd ctx),
            traceId = valueOf (opt_traceId ctx),
            parentSpanId = valueOf (opt_parentSpanId ctx),
            parentSampled = valueOf (opt_parentSampled ctx),
            dynamicSamplingContext = opt_dynamicSamplingContext ctx,
            attributes_source = opt_attributes_source ctx, data_source = opt_data_source ctx,
            metadata_source = opt_metadata_source ctx\<rparr>)"

text \<open>
  \<^verbatim>\<open>beforeStartSpan\<close> is called with the expanded context; the two names compared afterwards
  are those of the object it returned and of the expanded context as the callback left it, so
  a rename in place of the object that is returned is not seen. A name seen to differ is
  recorded as the source \<open>custom\<close>.
\<close>

definition finalizeContext :: "browserTracingOptions \<Rightarrow> transactionContext \<Rightarrow> transactionContext" where
  "finalizeContext opts expandedContext =
     (let (expandedAfter, finalContext) =
            (case beforeStartSpan opts of
               None \<Rightarrow> (expandedContext, expandedContext)
             | Some callback \<Rightarrow>
                 (argumentAfter (callback expandedContext),
                  case returned (callback expandedContext) of
                    None \<Rightarrow> argumentAfter (callback expandedContext)
                  | Some other \<Rightarrow> other))
      in if name finalContext \<noteq> name expandedAfter
         then finalContext\<lparr>metadata_source := Some ''custom''\<rparr>
         else finalContext)"

text \<open>
  The function sets the latest route, starts the idle transaction and returns it; the new
  transaction is the last of the store. The listener on the ready state of the document is
  wiring of the page and is not part of the state.
\<close>

definition createRouteTransaction ::
  "browserTracingOptions \<Rightarrow> propagation \<Rightarrow> startSpanOptions \<Rightarrow> tracingState \<Rightarrow> tracingState \<times> nat" where
  "createRouteTransaction opts p ctx st =
     (let isPageloadTransaction = (opt_op ctx = Is ''pageload'');
          finalContext = finalizeContext opts (expandContext p ctx);
          idleTransaction =
            startIdleTransaction finalContext (idleTimeout opts) (finalTimeout opts)
              (heartbeatInterval opts) isPageloadTransaction
      in (st\<lparr>latest := \<lparr>route_name = Some (name finalContext), route_context = Some finalContext\<rparr>,
             transactions := transactions st @ [idleTransaction]\<rparr>,
          length (transactions st)))"

subsection \<open>The handlers of \<^verbatim>\<open>startNavigationSpan\<close> and \<^verbatim>\<open>startPageLoadSpan\<close>\<close>

text \<open>\<^verbatim>\<open>if (activeSpan) { activeSpan.end(); }\<close>\<close>

definition finishActiveSpan :: "tracingState \<Rightarrow> tracingState" where
  "finishActiveSpan st =
     (case activeSpan st of Some i \<Rightarrow> onTransaction i (requestFinish External) st | None \<Rightarrow> st)"

text \<open>\<^verbatim>\<open>activeSpan = _createRouteTransaction({ op: ..., ...context })\<close>\<close>

definition startRouteSpan ::
  "string \<Rightarrow> browserTracingOptions \<Rightarrow> propagation \<Rightarrow> startSpanOptions \<Rightarrow> tracingState \<Rightarrow> tracingState" where
  "startRouteSpan defaultOp opts p ctx st =
     (let (st', span) = createRouteTransaction opts p (withDefaultOp defaultOp ctx) st
      in st'\<lparr>activeSpan := Some span\<rparr>)"

definition onStartNavigationSpan ::
  "browserTracingOptions \<Rightarrow> propagation \<Rightarrow> startSpanOptions \<Rightarrow> tracingState \<Rightarrow> tracingState" where
  "onStartNavigationSpan opts p ctx st = startRouteSpan ''navigation'' opts p ctx (finishActiveSpan st)"

definition onStartPageLoadSpan ::
  "browserTracingOptions \<Rightarrow> propagation \<Rightarrow> startSpanOptions \<Rightarrow> tracingState \<Rightarrow> tracingState" where
  "onStartPageLoadSpan opts p ctx st = startRouteSpan ''pageload'' opts p ctx (finishActiveSpan st)"



subsection \<open>The click listener: \<^verbatim>\<open>registerInteractionTransaction\<close>\<close>

text \<open>\<^verbatim>\<open>a || b\<close> on optional strings: the first when it is defined and not empty.\<close>

definition jsOr :: "string option \<Rightarrow> string option \<Rightarrow> string option" where
  "jsOr a b = (case a of Some s \<Rightarrow> if s \<noteq> [] then a else b | None \<Rightarrow> b)"

definition getSource :: "transactionContext \<Rightarrow> string option" where
  "getSource ctx = jsOr (jsOr (attributes_source ctx) (data_source ctx)) (metadata_source ctx)"

text \<open>
  The test on the transaction that \<^verbatim>\<open>getActiveTransaction()\<close> returns: it exists, its
  \<^verbatim>\<open>op\<close> is truthy and is \<^verbatim>\<open>navigation\<close> or \<^verbatim>\<open>pageload\<close>.
\<close>

definition routeTransactionInProgress :: "tracingState \<Rightarrow> nat option \<Rightarrow> bool" where
  "routeTransactionInProgress st currentTransaction =
     (case currentTransaction of
        None \<Rightarrow> False
      | Some c \<Rightarrow>
          (case lookupTransaction st c of
             None \<Rightarrow> False
           | Some t \<Rightarrow>
               (case op (tx_context t) of
                  None \<Rightarrow> False
                | Some opName \<Rightarrow> opName \<noteq> [] \<and> opName \<in> set [''navigation'', ''pageload''])))"

text \<open>
  One click. \<open>currentTransaction\<close> is the reference that \<^verbatim>\<open>getActiveTransaction()\<close> returns
  from the current scope. In the source of the click context the conditional binds weaker
  than \<^verbatim>\<open>||\<close>: the source is \<^verbatim>\<open>getSource\<close> of the latest context when there is one and
  \<^verbatim>\<open>'url'\<close> otherwise. A call of \<^verbatim>\<open>startIdleTransaction\<close> without its last argument does not
  wait for a finish signal.
\<close>

definition registerInteractionTransaction ::
  "browserTracingOptions \<Rightarrow> nat option \<Rightarrow> tracingState \<Rightarrow> tracingState" where
  "registerInteractionTransaction opts currentTransaction st =
     (if routeTransactionInProgress st currentTransaction then st
      else
        let st1 = (case inflightInteractionTransaction st of
                     Some i \<Rightarrow>
                       (onTransaction i (requestFinish InteractionInterrupted) st)
                         \<lparr>inflightInteractionTransaction := None\<rparr>
                   | None \<Rightarrow> st)
        in (case route_name (latest st1) of
              None \<Rightarrow> st1
            | Some rn \<Rightarrow>
                if rn = [] then st1
                else
                  let ctx = \<lparr>name = rn, op = Some ''ui.action.click'', sampled = None,
                             trimEnd = Some True, traceId = None, parentSpanId = None,
                             parentSampled = None, dynamicSamplingContext = None,
                             attributes_source = None,
                             data_source =
                               (case route_context (latest st1) of
                                  Some c \<Rightarrow> getSource c
                                | None \<Rightarrow> Some ''url''),
                             metadata_source = None\<rparr>
                  in st1\<lparr>transactions :=
                           transactions st1
                           @ [startIdleTransaction ctx (idleTimeout opts) (finalTimeout opts)
                                (heartbeatInterval opts) False],
                         inflightInteractionTransaction := Some (length (transactions st1))\<rparr>))"

subsection \<open>Sample values of the tracker\<close>

definition noPropagation :: propagation where
  "noPropagation = \<lparr>prop_traceId = None, prop_dsc = None, prop_parentSpanId = None, prop_sampled = None\<rparr>"

definition nothingGiven :: partialOptions where
  "nothingGiven =
     \<lparr>given_idleTimeout = Absent, given_finalTimeout = Absent, given_heartbeatInterval = Absent,
      given_instrumentPageLoad = Absent, given_instrumentNavigation = Absent,
      given_markBackgroundSpan = Absent, given_enableLongTask = Absent, given_enableInp = Absent,
      given_experiments = Absent, given_beforeStartSpan = Absent\<rparr>"

definition allReturn :: collaborators where
  "allReturn =
     \<lparr>addTracingExtensions = None, startTrackingWebVitals = None, startTrackingINP = None,
      startTrackingLongTasks = None, startTrackingInteractions = None\<rparr>"

definition routeOptions :: "string \<Rightarrow> startSpanOptions" where
  "routeOptions path =
     \<lparr>opt_name = path, opt_op = Absent, opt_sampled = None, opt_trimEnd = Absent,
      opt_traceId = Absent, opt_parentSpanId = Absent, opt_parentSampled = Absent,
      opt_dynamicSamplingContext = None, opt_attributes_source = Some ''url'',
      opt_data_source = None, opt_metadata_source = None\<rparr>"

text \<open>Options with timeouts that are not positive.\<close>

definition badTimeouts :: partialOptions where
  "badTimeouts =
     nothingGiven\<lparr>given_idleTimeout := Is (- 5), given_finalTimeout := Is 0,
                  given_heartbeatInterval := Is (- 1)\<rparr>"

text \<open>
  A history: the first pageload; its span finished by the idle timeout; a click while no
  transaction is on the scope; a navigation.
\<close>

definition homeLoaded :: tracingState where
  "homeLoaded =
     onStartPageLoadSpan DEFAULT_BROWSER_TRACING_OPTIONS noPropagation (routeOptions ''/home'') initialState"



section \<open>Properties of the interaction cache\<close>

subsection \<open>The object as an ordered list\<close>

lemma length_createProperty: "length (createProperty k v m) = Suc (length m)"
  by (induction k v m rule: createProperty.induct) auto

lemma set_createProperty: "set (createProperty k v m) = insert (k, v) (set m)"
  by (induction k v m rule: createProperty.induct) auto

lemma keys_createProperty: "set (map fst (createProperty k v m)) = insert k (set (map fst m))"
  by (simp add: set_createProperty)

lemma distinct_createProperty:
  "k \<notin> set (map fst m) \<Longrightarrow> distinct (map fst m) \<Longrightarrow> distinct (map fst (createProperty k v m))"
  by (induction k v m rule: createProperty.induct) (auto simp: set_createProperty)

lemma length_assign: "length (assign k v m) \<le> Suc (length m)"
  by (simp add: assign_def length_createProperty)

lemma foldl_shorter_mem: "foldl shorter x xs \<in> set (x # xs)"
  by (induction xs arbitrary: x) (auto simp: shorter_def)

lemma minInteraction_mem: "minInteraction m = Some x \<Longrightarrow> x \<in> set m"
  using foldl_shorter_mem by (auto simp: minInteraction_def split: list.splits)

lemma minInteraction_None: "minInteraction m = None \<longleftrightarrow> m = []"
  by (auto simp: minInteraction_def split: list.splits)

lemma length_delete_mem: "k \<in> set (map fst m) \<Longrightarrow> length (delete k m) < length m"
  unfolding delete_def by (auto intro: length_filter_less)

lemma length_mergeDuration: "length (mergeDuration k d m) = length m"
  by (simp add: mergeDuration_def)

lemma length_evictShortest:
  "length m \<le> MAX_INTERACTIONS \<Longrightarrow> length (evictShortest m) < MAX_INTERACTIONS"
proof (cases "length m < MAX_INTERACTIONS")
  case True
  then show ?thesis by (simp add: evictShortest_def split: option.splits)
next
  case False
  assume "length m \<le> MAX_INTERACTIONS"
  with False have full: "length m = MAX_INTERACTIONS" by simp
  then have "m \<noteq> []" by (auto simp: MAX_INTERACTIONS_def)
  then obtain x where x: "minInteraction m = Some x"
    using minInteraction_None [of m] by auto
  then have "fst x \<in> set (map fst m)"
    using minInteraction_mem by fastforce
  then have "length (delete (fst x) m) < length m"
    by (rule length_delete_mem)
  with full x show ?thesis
    by (simp add: evictShortest_def minInteractionId_def)
qed

lemma observe_None: "interactionId e = None \<Longrightarrow> observe env e m = m"
  by (simp add: observe_def)

lemma observe_duplicate: "duplicateFirstInput e m \<Longrightarrow> observe env e m = m"
  by (simp add: observe_def split: option.splits)

lemma observe_sentinel: "interactionId e = Some 0 \<Longrightarrow> observe env e m = m"
  by (simp add: observe_def)

lemma observe_existing:
  assumes "interactionId e = Some iid" and "iid \<noteq> 0"
    and "\<not> duplicateFirstInput e m"
    and "map_of m iid = Some r"
  shows "observe env e m = mergeDuration iid (duration e) m"
  using assms by (simp add: observe_def)

lemma routeAvailableE:
  assumes "routeAvailable r"
  obtains rn pc where "route_name r = Some rn" and "route_context r = Some pc" and "rn \<noteq> []"
  using assms by (auto simp: routeAvailable_def split: option.splits)

lemma observe_new:
  assumes "interactionId e = Some iid" and "iid \<noteq> 0"
    and "\<not> duplicateFirstInput e m"
    and "map_of m iid = None"
  shows "observe env e m =
     (if admits e m \<and> routeAvailable (env_latestRoute env)
      then assign iid
             (newInteraction env e (the (route_name (env_latestRoute env)))
                (the (route_context (env_latestRoute env))))
             (evictShortest m)
      else m)"
proof (cases "routeAvailable (env_latestRoute env)")
  case True
  then obtain rn pc where "route_name (env_latestRoute env) = Some rn"
    and "route_context (env_latestRoute env) = Some pc" and "rn \<noteq> []"
    by (rule routeAvailableE)
  with True assms show ?thesis by (simp add: observe_def)
next
  case False
  then have "(case (route_name (env_latestRoute env), route_context (env_latestRoute env)) of
                (Some rn, Some pc) \<Rightarrow> if rn \<noteq> [] then x rn pc else m
              | _ \<Rightarrow> m) = m" for x :: "string \<Rightarrow> transactionContext \<Rightarrow> interactionRouteNameMapping"
    by (simp add: routeAvailable_def split: option.splits)
  with False assms show ?thesis by (simp add: observe_def)
qed

text \<open>The three outcomes of one entry.\<close>

lemma observe_cases:
  obtains (unchanged) "observe env e m = m"
  | (merged) iid where "interactionId e = Some iid" and "iid \<noteq> 0"
      and "observe env e m = mergeDuration iid (duration e) m"
  | (added) iid r where "interactionId e = Some iid" and "iid \<noteq> 0" and "map_of m iid = None"
      and "observe env e m = assign iid r (evictShortest m)"
proof (cases "interactionId e")
  case None
  then show ?thesis using unchanged observe_None by simp
next
  case (Some iid)
  show ?thesis
  proof (cases "iid = 0 \<or> duplicateFirstInput e m")
    case True
    with Some show ?thesis using unchanged observe_sentinel observe_duplicate by blast
  next
    case False
    show ?thesis
    proof (cases "map_of m iid")
      case None
      with Some False show ?thesis
        using observe_new [of e iid m env] unchanged added by (cases "admits e m \<and> routeAvailable (env_latestRoute env)") auto
    next
      case (Some r)
      with \<open>interactionId e = Some iid\<close> False show ?thesis
        using observe_existing [of e iid m r env] merged by auto
    qed
  qed
qed

lemma length_observe:
  "length m \<le> MAX_INTERACTIONS \<Longrightarrow> length (observe env e m) \<le> MAX_INTERACTIONS"
proof (cases env e m rule: observe_cases)
  case unchanged
  assume "length m \<le> MAX_INTERACTIONS"
  with unchanged show ?thesis by simp
next
  case (merged iid)
  assume "length m \<le> MAX_INTERACTIONS"
  with merged show ?thesis by (simp add: length_mergeDuration)
next
  case (added iid r)
  assume "length m \<le> MAX_INTERACTIONS"
  then have "length (evictShortest m) < MAX_INTERACTIONS" by (rule length_evictShortest)
  with added length_assign [of iid r "evictShortest m"]
  show ?thesis by simp
qed

lemma length_handleEntry:
  "length m \<le> MAX_INTERACTIONS \<Longrightarrow> length (handleEntry env m e) \<le> MAX_INTERACTIONS"
  by (cases e) (simp_all add: handleEntry_def length_observe)

lemma length_handleEntries:
  "length m \<le> MAX_INTERACTIONS \<Longrightarrow> length (handleEntries env es m) \<le> MAX_INTERACTIONS"
  unfolding handleEntries_def
  by (induction es arbitrary: m) (simp_all add: length_handleEntry)

lemma length_calls:
  "length m \<le> MAX_INTERACTIONS \<Longrightarrow>
   length (foldl (\<lambda>m (env, entries). handleEntries env entries m) m calls) \<le> MAX_INTERACTIONS"
  by (induction calls arbitrary: m) (auto simp: length_handleEntries)

text \<open>
  Claim C1. Whatever calls of \<^verbatim>\<open>handleEntries\<close> the cache has received, and whatever
  each of them read and was given, after every one of them (after the first \<open>n\<close> calls, for
  every \<open>n\<close>) the mapping holds at most \<open>MAX_INTERACTIONS = 10\<close> records.
\<close>

theorem cache_bounded: "length (afterCalls (take n calls)) \<le> MAX_INTERACTIONS"
  unfolding afterCalls_def by (rule length_calls) simp

lemma keys_mergeDuration: "map fst (mergeDuration k d m) = map fst m"
  by (induction m) (auto simp: mergeDuration_def)

lemma keys_delete_subset: "set (map fst (delete k m)) \<subseteq> set (map fst m)"
  by (auto simp: delete_def)

lemma keys_replace: "map fst (map (\<lambda>(k', v'). if k' = k then (k', v) else (k', v')) m) = map fst m"
  by (induction m) auto

lemma keys_assign: "set (map fst (assign k v m)) = insert k (set (map fst m))"
proof (cases "k \<in> set (map fst m)")
  case True
  then have "map fst (assign k v m) = map fst m"
    unfolding assign_def by (simp only: if_True keys_replace)
  with True show ?thesis by (simp only: insert_absorb)
next
  case False
  then show ?thesis by (simp add: assign_def set_createProperty)
qed

lemma keys_evictShortest: "set (map fst (evictShortest m)) \<subseteq> set (map fst m)"
proof (cases "minInteractionId m")
  case None
  then show ?thesis by (simp add: evictShortest_def)
next
  case (Some k)
  then show ?thesis
    using keys_delete_subset [of k m] by (simp only: evictShortest_def option.case split: if_splits) simp
qed

lemma keys_observe:
  assumes "k \<in> set (map fst (observe env e m))"
  shows "k \<in> set (map fst m) \<or> (interactionId e = Some k \<and> k \<noteq> 0)"
proof (cases env e m rule: observe_cases)
  case unchanged
  with assms show ?thesis by simp
next
  case (merged iid)
  with assms show ?thesis by (simp add: keys_mergeDuration del: set_map)
next
  case (added iid r)
  with assms have "k \<in> insert iid (set (map fst (evictShortest m)))"
    by (simp only: keys_assign)
  with added(1,2) keys_evictShortest [of m] show ?thesis by blast
qed

lemma no_sentinel_observe:
  "0 \<notin> set (map fst m) \<Longrightarrow> 0 \<notin> set (map fst (observe env e m))"
  using keys_observe [of 0 env e m] by blast

lemma no_sentinel_handleEntries:
  "0 \<notin> set (map fst m) \<Longrightarrow> 0 \<notin> set (map fst (handleEntries env es m))"
  unfolding handleEntries_def
proof (induction es arbitrary: m)
  case Nil
  then show ?case by simp
next
  case (Cons e es)
  have "0 \<notin> set (map fst (handleEntry env m e))"
  proof (cases e)
    case (EventTiming t)
    with Cons.prems no_sentinel_observe [of m env t] show ?thesis
      by (simp add: handleEntry_def del: set_map)
  next
    case OtherEntry
    with Cons.prems show ?thesis by (simp add: handleEntry_def del: set_map)
  qed
  then have "0 \<notin> set (map fst (foldl (handleEntry env) (handleEntry env m e) es))"
    by (rule Cons.IH)
  then show ?case by (simp del: set_map)
qed

lemma no_sentinel_calls:
  "0 \<notin> set (map fst m) \<Longrightarrow>
   0 \<notin> set (map fst (foldl (\<lambda>m (env, entries). handleEntries env entries m) m calls))"
proof (induction calls arbitrary: m)
  case Nil
  then show ?case by (simp del: set_map)
next
  case (Cons c calls)
  obtain env entries where c: "c = (env, entries)" by (cases c)
  have "0 \<notin> set (map fst (handleEntries env entries m))"
    using Cons.prems by (rule no_sentinel_handleEntries)
  then have "0 \<notin> set (map fst (foldl (\<lambda>m (env, entries). handleEntries env entries m)
      (handleEntries env entries m) calls))"
    by (rule Cons.IH)
  with c show ?case by (simp del: set_map)
qed

text \<open>
  Claim C5. An entry whose interaction id is the sentinel \<open>0\<close> leaves the mapping as it is,
  whatever its duration, its kind and the records already held; and no history of calls ever
  stores a record under the id \<open>0\<close>.
\<close>

theorem sentinel_rejected:
  "(interactionId e = Some 0 \<longrightarrow> observe env e m = m) \<and> 0 \<notin> set (map fst (afterCalls calls))"
proof
  show "interactionId e = Some 0 \<longrightarrow> observe env e m = m"
    using observe_sentinel by blast
  have "0 \<notin> set (map fst ([] :: interactionRouteNameMapping))" by simp
  then show "0 \<notin> set (map fst (afterCalls calls))"
    unfolding afterCalls_def by (rule no_sentinel_calls)
qed

theorem sentinel_rejected_witness:
  "interactionId (eventEntry 0 120 5) = Some 0
   \<and> observe homeEnv (eventEntry 0 120 5) [(7, homeInteraction 40 9)] = [(7, homeInteraction 40 9)]
   \<and> 0 \<notin> set (map fst (afterCalls [(homeEnv, [EventTiming (eventEntry 0 120 5)])]))"
  using sentinel_rejected [of "eventEntry 0 120 5" homeEnv "[(7, homeInteraction 40 9)]"
      "[(homeEnv, [EventTiming (eventEntry 0 120 5)])]"]
  by (simp add: eventEntry_def)

text \<open>
  Claim C6. An entry for an interaction that has no record yet, arriving while the latest route
  has no name, an empty name or no context, leaves the mapping exactly as it is: nothing is
  added and nothing is removed.
\<close>

theorem no_route_noop:
  assumes "interactionId e = Some iid" and "map_of m iid = None"
    and "\<not> routeAvailable (env_latestRoute env)"
  shows "observe env e m = m"
proof (cases "iid = 0 \<or> duplicateFirstInput e m")
  case True
  with assms(1) show ?thesis using observe_sentinel observe_duplicate by blast
next
  case False
  with assms show ?thesis using observe_new [of e iid m env] by simp
qed

theorem no_route_noop_witness:
  "interactionId (eventEntry 8 500 3) = Some 8
   \<and> map_of [(7 :: nat, homeInteraction 40 9)] 8 = None
   \<and> \<not> routeAvailable (env_latestRoute noRouteEnv)
   \<and> observe noRouteEnv (eventEntry 8 500 3) [(7, homeInteraction 40 9)] = [(7, homeInteraction 40 9)]"
  using no_route_noop [of "eventEntry 8 500 3" 8 "[(7, homeInteraction 40 9)]" noRouteEnv]
  by (simp add: eventEntry_def noRouteEnv_def noRoute_def routeAvailable_def)

subsection \<open>Merging, eviction and de-duplication\<close>

lemma map_of_mergeDuration:
  "map_of (mergeDuration k d m) k' =
     (if k' = k then map_option (\<lambda>i. i\<lparr>duration := max (duration i) d\<rparr>) (map_of m k)
      else map_of m k')"
  by (induction m) (auto simp: mergeDuration_def)

lemma map_of_delete: "map_of (delete k m) k' = (if k' = k then None else map_of m k')"
  by (induction m) (auto simp: delete_def)

lemma map_of_createProperty:
  "k \<notin> set (map fst m) \<Longrightarrow> map_of (createProperty k v m) k' = (if k' = k then Some v else map_of m k')"
  by (induction k v m rule: createProperty.induct) auto

lemma map_of_None_keys: "map_of m k = None \<longleftrightarrow> k \<notin> set (map fst m)"
  by (simp add: map_of_eq_None_iff)

lemma matchingEntry_iff:
  "matchingEntry e m \<longleftrightarrow> (\<exists>(k, r) \<in> set m. duration r = duration e \<and> startTime r = startTime e)"
  by (force simp: matchingEntry_def list_ex_iff)

lemma foldl_shorter_least:
  "duration (snd (foldl shorter x xs)) \<le> duration (snd x)
   \<and> (\<forall>y \<in> set xs. duration (snd (foldl shorter x xs)) \<le> duration (snd y))"
proof (induction xs arbitrary: x)
  case Nil
  then show ?case by simp
next
  case (Cons a xs)
  have "duration (snd (shorter x a)) \<le> duration (snd x)"
    and "duration (snd (shorter x a)) \<le> duration (snd a)"
    by (simp_all add: shorter_def)
  with Cons.IH [of "shorter x a"] show ?case by auto
qed

lemma minInteraction_least:
  "minInteraction m = Some x \<Longrightarrow> y \<in> set m \<Longrightarrow> duration (snd x) \<le> duration (snd y)"
  using foldl_shorter_least by (auto simp: minInteraction_def split: list.splits)

lemma evictShortest_room: "length m < MAX_INTERACTIONS \<Longrightarrow> evictShortest m = m"
  by (simp add: evictShortest_def split: option.splits)

lemma evictShortest_full:
  "MAX_INTERACTIONS \<le> length m \<Longrightarrow> minInteraction m = Some (k, r) \<Longrightarrow> evictShortest m = delete k m"
  by (simp add: evictShortest_def minInteractionId_def)

lemma admits_full:
  "MAX_INTERACTIONS \<le> length m \<Longrightarrow> minInteraction m = Some (k, r) \<Longrightarrow>
   admits e m \<longleftrightarrow> duration r < duration e"
  by (simp add: admits_def)

lemma assign_new: "k \<notin> set (map fst m) \<Longrightarrow> assign k v m = createProperty k v m"
  by (simp add: assign_def)

lemma observe_added:
  assumes "interactionId e = Some iid" and "iid \<noteq> 0" and "\<not> duplicateFirstInput e m"
    and "map_of m iid = None" and "admits e m"
    and "route_name (env_latestRoute env) = Some rn" and "route_context (env_latestRoute env) = Some pc"
    and "rn \<noteq> []"
  shows "observe env e m = createProperty iid (newInteraction env e rn pc) (evictShortest m)"
proof -
  have "iid \<notin> set (map fst (evictShortest m))"
    using assms(4) keys_evictShortest [of m] by (auto simp: map_of_None_keys simp del: set_map)
  then show ?thesis
    using assms by (simp add: observe_def assign_new del: set_map)
qed

lemma observe_dropped:
  assumes "interactionId e = Some iid" and "map_of m iid = None" and "\<not> admits e m"
  shows "observe env e m = m"
  using assms by (simp add: observe_def)

text \<open>
  Claim C3, as amended. In a cache reached by any history of calls, an entry whose interaction id
  has a record, and that is not a \<^verbatim>\<open>first-input\<close> entry with the duration and start time of
  some record, sets that record's duration to the larger of the two durations; every other
  field of the record, every other record and the order of the keys stay as they were. From
  the empty cache, with a route for the first entry, the id 42 observed with the durations 50,
  30 and 80 (of any kinds and start times) leaves the single record of duration 80.
\<close>

theorem duration_merged:
  assumes "interactionId e = Some iid" and "map_of (afterCalls calls) iid = Some r"
    and "\<not> duplicateFirstInput e (afterCalls calls)"
  shows "map_of (observe env e (afterCalls calls)) iid = Some (r\<lparr>duration := max (duration r) (duration e)\<rparr>)
    \<and> (\<forall>k. k \<noteq> iid \<longrightarrow> map_of (observe env e (afterCalls calls)) k = map_of (afterCalls calls) k)
    \<and> map fst (observe env e (afterCalls calls)) = map fst (afterCalls calls)
    \<and> (\<forall>env1 env2 env3 t1 t2 t3 s1 s2 s3 rn pc.
          route_name (env_latestRoute env1) = Some rn \<and> rn \<noteq> [] \<and> route_context (env_latestRoute env1) = Some pc
          \<longrightarrow> observe env3 \<lparr>duration = 80, startTime = s3, entryType = t3, interactionId = Some 42\<rparr>
                (observe env2 \<lparr>duration = 30, startTime = s2, entryType = t2, interactionId = Some 42\<rparr>
                  (observe env1 \<lparr>duration = 50, startTime = s1, entryType = t1, interactionId = Some 42\<rparr> []))
              = [(42, \<lparr>duration = 80, startTime = s1, routeName = rn, parentContext = pc,
                      user = env_user env1, activeTransaction = env_activeTransaction env1,
                      replayId = env_replayId env1\<rparr>)])"
proof -
  let ?m = "afterCalls calls"
  have "iid \<in> set (map fst ?m)"
    using assms(2) map_of_None_keys [of ?m iid] by simp
  moreover have "0 \<notin> set (map fst ?m)"
    unfolding afterCalls_def by (rule no_sentinel_calls) simp
  ultimately have "iid \<noteq> 0" by metis
  with assms have obs: "observe env e ?m = mergeDuration iid (duration e) ?m"
    using observe_existing [of e iid ?m r env] by simp
  have scen: "observe env3 \<lparr>duration = 80, startTime = s3, entryType = t3, interactionId = Some 42\<rparr>
                (observe env2 \<lparr>duration = 30, startTime = s2, entryType = t2, interactionId = Some 42\<rparr>
                  (observe env1 \<lparr>duration = 50, startTime = s1, entryType = t1, interactionId = Some 42\<rparr> []))
              = [(42, \<lparr>duration = 80, startTime = s1, routeName = rn, parentContext = pc,
                      user = env_user env1, activeTransaction = env_activeTransaction env1,
                      replayId = env_replayId env1\<rparr>)]"
    if "route_name (env_latestRoute env1) = Some rn" "rn \<noteq> []" "route_context (env_latestRoute env1) = Some pc"
    for env1 env2 env3 :: entriesEnv and t1 t2 t3 s1 s2 s3 rn pc
    using that
    by (simp add: observe_def duplicateFirstInput_def matchingEntry_def admits_def MAX_INTERACTIONS_def
        assign_def evictShortest_def minInteractionId_def minInteraction_def newInteraction_def
        mergeDuration_def)
  show ?thesis
    unfolding obs using assms(2) scen
    by (simp add: map_of_mergeDuration keys_mergeDuration)
qed

lemma set_delete:
  "distinct (map fst m) \<Longrightarrow> (k, r) \<in> set m \<Longrightarrow> set (delete k m) = set m - {(k, r)}"
  by (auto simp: delete_def dest: eq_key_imp_eq_value)

lemma distinct_delete: "distinct (map fst m) \<Longrightarrow> distinct (map fst (delete k m))"
  by (simp add: delete_def distinct_map_filter)

lemma length_delete:
  "distinct (map fst m) \<Longrightarrow> k \<in> set (map fst m) \<Longrightarrow> Suc (length (delete k m)) = length m"
proof (induction m)
  case Nil
  then show ?case by simp
next
  case (Cons a m)
  show ?case
  proof (cases "fst a = k")
    case True
    with Cons.prems have "k \<notin> set (map fst m)" by auto
    then have "delete k m = m" by (force simp: delete_def filter_id_conv)
    with True show ?thesis by (simp add: delete_def case_prod_beta)
  next
    case False
    with Cons show ?thesis by (auto simp: delete_def case_prod_beta)
  qed
qed

lemma duration_recordOf: "duration (snd (recordOf env rn pc e)) = duration e"
  by (simp add: recordOf_def newInteraction_def)

lemma fst_recordOf: "interactionId e = Some i \<Longrightarrow> fst (recordOf env rn pc e) = i"
  by (simp add: recordOf_def)

lemma observe_increasing_step:
  assumes route: "route_name (env_latestRoute env) = Some rn" "rn \<noteq> []"
      "route_context (env_latestRoute env) = Some pc"
    and inv: "set R = recordOf env rn pc ` set (drop (length es - 10) es)"
      "distinct (map fst R)" "length R = min (length es) 10"
    and incr: "sorted_wrt (<) (map duration (es @ [e]))"
    and ids: "distinct (map interactionId (es @ [e]))"
    and valid: "\<forall>x \<in> set (es @ [e]). \<exists>i. interactionId x = Some i \<and> i \<noteq> 0"
  shows "set (observe env e R) = recordOf env rn pc ` set (drop (length (es @ [e]) - 10) (es @ [e]))
    \<and> distinct (map fst (observe env e R))
    \<and> length (observe env e R) = min (length (es @ [e])) 10"
proof -
  let ?f = "recordOf env rn pc"
  obtain iid where iid: "interactionId e = Some iid" "iid \<noteq> 0"
    using valid by auto
  have some: "\<exists>i. interactionId x = Some i" if "x \<in> set es" for x
    using valid that by auto
  have later: "duration x < duration e" if "x \<in> set es" for x
    using incr that by (auto simp: sorted_wrt_append)
  have other: "interactionId x \<noteq> interactionId e" if "x \<in> set es" for x
    using ids that by (force simp: image_iff)
  have inj: "inj_on interactionId (set es)" and dist: "distinct es"
    using ids by (auto simp: distinct_map)
  have sub: "set R \<subseteq> ?f ` set es"
    unfolding inv(1) using set_drop_subset [of "length es - 10" es] by blast
  have fresh: "iid \<notin> set (map fst R)"
  proof
    assume "iid \<in> set (map fst R)"
    then obtain x where x: "x \<in> set es" "fst (?f x) = iid"
      using sub by force
    from some [OF x(1)] obtain i where "interactionId x = Some i" by blast
    with x(2) have "interactionId x = Some iid" by (simp add: recordOf_def)
    with other [OF x(1)] iid show False by simp
  qed
  then have new: "map_of R iid = None"
    by (simp add: map_of_None_keys del: set_map)
  have nodup: "\<not> duplicateFirstInput e R"
  proof
    assume "duplicateFirstInput e R"
    then obtain k r where kr: "(k, r) \<in> set R" "duration r = duration e"
      by (auto simp: duplicateFirstInput_def matchingEntry_iff)
    then obtain x where x: "x \<in> set es" "(k, r) = ?f x"
      using sub by auto
    then have "duration r = duration x"
      using duration_recordOf [of env rn pc x] by (metis snd_conv)
    with later [OF x(1)] kr(2) show False by simp
  qed
  show ?thesis
  proof (cases "length es < 10")
    case True
    then have len: "length R < MAX_INTERACTIONS"
      using inv(3) by (simp add: MAX_INTERACTIONS_def)
    then have "admits e R" by (simp add: admits_def)
    then have "observe env e R = createProperty iid (newInteraction env e rn pc) (evictShortest R)"
      using observe_added [OF iid nodup new _ route(1) route(3) route(2)] by simp
    then have obs: "observe env e R = createProperty iid (newInteraction env e rn pc) R"
      using len by (simp add: evictShortest_room)
    have "?f e = (iid, newInteraction env e rn pc)"
      using iid by (simp add: recordOf_def)
    then have "set (observe env e R) = ?f ` set (es @ [e])"
      unfolding obs set_createProperty using inv(1) True by simp
    moreover have "distinct (map fst (observe env e R))"
      unfolding obs using fresh inv(2) by (rule distinct_createProperty)
    moreover have "length (observe env e R) = Suc (length es)"
      unfolding obs length_createProperty using inv(3) True by simp
    ultimately show ?thesis using True by simp
  next
    case False
    define n where "n = length es - 10"
    have n: "n < length es" "length es = n + 10"
      using False by (simp_all add: n_def)
    have len: "length R = 10" using inv(3) False by simp
    then have full: "MAX_INTERACTIONS \<le> length R" by (simp add: MAX_INTERACTIONS_def)
    from len have "R \<noteq> []" by auto
    then obtain k r where kr: "minInteraction R = Some (k, r)"
      using minInteraction_None [of R] by (cases "minInteraction R") auto
    then have mem: "(k, r) \<in> set R" by (rule minInteraction_mem)
    have split: "drop n es = es ! n # drop (Suc n) es"
      using n(1) by (simp add: Cons_nth_drop_Suc)
    have first: "?f (es ! n) \<in> set R"
      unfolding inv(1) n_def [symmetric] split by simp
    from mem obtain x where x: "x \<in> set (drop n es)" "(k, r) = ?f x"
      unfolding inv(1) n_def [symmetric] by auto
    have "x = es ! n"
    proof (rule ccontr)
      assume neq: "x \<noteq> es ! n"
      with x(1) split have "x \<in> set (drop (Suc n) es)" by auto
      then obtain j where j: "j < length es - Suc n" "x = es ! (Suc n + j)"
        by (auto simp: in_set_conv_nth)
      have "sorted_wrt (<) (map duration es)"
        using incr by (simp add: sorted_wrt_append)
      then have "duration (es ! n) < duration (es ! (Suc n + j))"
        using j(1) n(1) by (simp add: sorted_wrt_iff_nth_less)
      moreover have "duration (snd (k, r)) \<le> duration (snd (?f (es ! n)))"
        using kr first by (rule minInteraction_least)
      ultimately show False
        using x(2) j(2) by (simp add: duration_recordOf)
    qed
    with x(2) have kr_eq: "(k, r) = ?f (es ! n)" by simp
    have "es ! n \<in> set es" using n(1) by simp
    then have "duration r < duration e"
      using later [of "es ! n"] kr_eq duration_recordOf [of env rn pc "es ! n"] by (metis snd_conv)
    with full kr have "admits e R" by (simp add: admits_full)
    then have "observe env e R = createProperty iid (newInteraction env e rn pc) (evictShortest R)"
      using observe_added [OF iid nodup new _ route(1) route(3) route(2)] by simp
    then have obs: "observe env e R = createProperty iid (newInteraction env e rn pc) (delete k R)"
      using full kr by (simp add: evictShortest_full)
    have "es ! n \<notin> set (drop (Suc n) es)"
      using dist split by (metis append_take_drop_id distinct.simps(2) distinct_append)
    then have "?f (es ! n) \<notin> ?f ` set (drop (Suc n) es)"
    proof -
      have "inj_on ?f (set es)"
      proof (rule inj_onI)
        fix a b assume ab: "a \<in> set es" "b \<in> set es" "?f a = ?f b"
        from some [OF ab(1)] some [OF ab(2)]
        obtain i j where "interactionId a = Some i" "interactionId b = Some j"
          by blast
        with ab(3) have "interactionId a = interactionId b" by (simp add: recordOf_def)
        with inj ab(1,2) show "a = b" by (simp add: inj_on_def)
      qed
      moreover have "set (drop (Suc n) es) \<subseteq> set es" by (rule set_drop_subset)
      moreover note \<open>es ! n \<in> set es\<close> \<open>es ! n \<notin> set (drop (Suc n) es)\<close>
      ultimately show ?thesis by (auto simp: inj_on_def)
    qed
    then have del: "set (delete k R) = ?f ` set (drop (Suc n) es)"
      using set_delete [OF inv(2) mem] unfolding kr_eq inv(1) n_def [symmetric] split by auto
    have drop': "drop (length (es @ [e]) - 10) (es @ [e]) = drop (Suc n) es @ [e]"
      using n(2) by simp
    have "?f e = (iid, newInteraction env e rn pc)"
      using iid by (simp add: recordOf_def)
    then have "set (observe env e R) = ?f ` set (drop (length (es @ [e]) - 10) (es @ [e]))"
      unfolding obs set_createProperty del drop' by simp
    moreover have "iid \<notin> set (map fst (delete k R))"
      using fresh keys_delete_subset [of k R] by blast
    then have "distinct (map fst (observe env e R))"
      unfolding obs using distinct_delete [OF inv(2)] by (rule distinct_createProperty)
    moreover have "k \<in> set (map fst R)" using mem by force
    then have "length (observe env e R) = 10"
      unfolding obs length_createProperty using length_delete [OF inv(2)] len by simp
    ultimately show ?thesis using n(2) by simp
  qed
qed

lemma handleEntries_EventTiming:
  "handleEntries env (map EventTiming es) m = foldl (\<lambda>m e. observe env e m) m es"
  by (induction es arbitrary: m) (simp_all add: handleEntries_def handleEntry_def)

lemma observe_increasing_run:
  assumes route: "route_name (env_latestRoute env) = Some rn" "rn \<noteq> []"
      "route_context (env_latestRoute env) = Some pc"
  shows "sorted_wrt (<) (map duration es) \<Longrightarrow> distinct (map interactionId es) \<Longrightarrow>
    \<forall>x \<in> set es. \<exists>i. interactionId x = Some i \<and> i \<noteq> 0 \<Longrightarrow>
    set (foldl (\<lambda>m e. observe env e m) [] es) = recordOf env rn pc ` set (drop (length es - 10) es)
    \<and> distinct (map fst (foldl (\<lambda>m e. observe env e m) [] es))
    \<and> length (foldl (\<lambda>m e. observe env e m) [] es) = min (length es) 10"
proof (induction es rule: rev_induct)
  case Nil
  then show ?case by simp
next
  case (snoc e es)
  let ?R = "foldl (\<lambda>m e. observe env e m) [] es"
  have "sorted_wrt (<) (map duration es)" and "distinct (map interactionId es)"
    and "\<forall>x \<in> set es. \<exists>i. interactionId x = Some i \<and> i \<noteq> 0"
    using snoc.prems by (simp_all add: sorted_wrt_append)
  then have inv: "set ?R = recordOf env rn pc ` set (drop (length es - 10) es)"
    "distinct (map fst ?R)" "length ?R = min (length es) 10"
    using snoc.IH by blast+
  have "foldl (\<lambda>m e. observe env e m) [] (es @ [e]) = observe env e ?R" by simp
  then show ?case
    using observe_increasing_step [OF route inv snoc.prems] by (simp only:)
qed

lemma in_set_drop_nth: "x \<in> set (drop n xs) \<longleftrightarrow> (\<exists>i. n \<le> i \<and> i < length xs \<and> xs ! i = x)"
proof
  assume "x \<in> set (drop n xs)"
  then obtain j where "j < length xs - n" "drop n xs ! j = x"
    by (auto simp: in_set_conv_nth)
  then show "\<exists>i. n \<le> i \<and> i < length xs \<and> xs ! i = x"
    by (intro exI [of _ "n + j"]) auto
next
  assume "\<exists>i. n \<le> i \<and> i < length xs \<and> xs ! i = x"
  then obtain i where i: "n \<le> i" "i < length xs" "xs ! i = x" by blast
  then have "drop n xs ! (i - n) = x" and "i - n < length (drop n xs)" by auto
  then show "x \<in> set (drop n xs)" by (metis nth_mem)
qed

lemma fifteen_durations:
  assumes "length es = 15" and "\<forall>j<15. duration (es ! j) = int j + 1"
  shows "sorted_wrt (<) (map duration es)" and "duration ` set (drop 5 es) = {6..15}"
proof -
  show "sorted_wrt (<) (map duration es)"
    using assms by (simp add: sorted_wrt_iff_nth_less)
  show "duration ` set (drop 5 es) = {6..15}"
  proof (intro set_eqI iffI)
    fix d assume "d \<in> duration ` set (drop 5 es)"
    then obtain i where "5 \<le> i" "i < 15" "d = duration (es ! i)"
      using assms(1) by (auto simp: in_set_drop_nth)
    with assms(2) show "d \<in> {6..15}" by simp
  next
    fix d :: int assume d: "d \<in> {6..15}"
    define i where "i = nat (d - 1)"
    with d have i: "5 \<le> i" "i < 15" "d = int i + 1" by auto
    with assms have "es ! i \<in> set (drop 5 es)" and "duration (es ! i) = d"
      by (auto simp: in_set_drop_nth)
    then show "d \<in> duration ` set (drop 5 es)" by blast
  qed
qed

text \<open>
  Claim C2, as amended. At capacity, an entry with a new, non-zero id, with a route available,
  that is not a \<^verbatim>\<open>first-input\<close> entry with the duration and start time of some record: a
  record of least duration is removed and the entry stored in its place, all other records
  unchanged, if and only if the entry is strictly longer than that record; otherwise the cache
  is unchanged. And fifteen entries with distinct non-zero ids and the durations 1 to 15, in
  this order, leave exactly the ten records made from the last ten entries, whose durations
  are 6 to 15.
\<close>

theorem eviction_rule:
  "(MAX_INTERACTIONS \<le> length m \<and> interactionId e = Some iid \<and> iid \<noteq> 0 \<and> map_of m iid = None
      \<and> route_name (env_latestRoute env) = Some rn \<and> rn \<noteq> []
      \<and> route_context (env_latestRoute env) = Some pc \<and> \<not> duplicateFirstInput e m
    \<longrightarrow> (\<exists>k shortest. (k, shortest) \<in> set m
          \<and> (\<forall>x \<in> set m. duration shortest \<le> duration (snd x))
          \<and> (if duration shortest < duration e
              then map_of (observe env e m) k = None
                \<and> map_of (observe env e m) iid = Some (newInteraction env e rn pc)
                \<and> (\<forall>k'. k' \<noteq> k \<and> k' \<noteq> iid \<longrightarrow> map_of (observe env e m) k' = map_of m k')
              else observe env e m = m)))
   \<and> (length es = 15 \<and> (\<forall>j<15. duration (es ! j) = int j + 1) \<and> distinct (map interactionId es)
      \<and> (\<forall>x \<in> set es. \<exists>i. interactionId x = Some i \<and> i \<noteq> 0)
      \<and> route_name (env_latestRoute env') = Some rn' \<and> rn' \<noteq> []
      \<and> route_context (env_latestRoute env') = Some pc'
    \<longrightarrow> length (handleEntries env' (map EventTiming es) []) = 10
      \<and> set (handleEntries env' (map EventTiming es) []) = recordOf env' rn' pc' ` set (drop 5 es)
      \<and> duration ` snd ` set (handleEntries env' (map EventTiming es) []) = {6..15})"
proof (intro conjI impI)
  assume a: "MAX_INTERACTIONS \<le> length m \<and> interactionId e = Some iid \<and> iid \<noteq> 0 \<and> map_of m iid = None
      \<and> route_name (env_latestRoute env) = Some rn \<and> rn \<noteq> []
      \<and> route_context (env_latestRoute env) = Some pc \<and> \<not> duplicateFirstInput e m"
  then have "m \<noteq> []" by (auto simp: MAX_INTERACTIONS_def)
  then obtain k r where kr: "minInteraction m = Some (k, r)"
    using minInteraction_None [of m] by (cases "minInteraction m") auto
  then have mem: "(k, r) \<in> set m" by (rule minInteraction_mem)
  have least: "\<forall>x \<in> set m. duration r \<le> duration (snd x)"
    using minInteraction_least [OF kr] by simp
  have fresh: "iid \<notin> set (map fst m)"
    using a by (simp add: map_of_None_keys del: set_map)
  have "k \<in> set (map fst m)" using mem by force
  with fresh have "k \<noteq> iid" by blast
  have outcome: "if duration r < duration e
      then map_of (observe env e m) k = None
        \<and> map_of (observe env e m) iid = Some (newInteraction env e rn pc)
        \<and> (\<forall>k'. k' \<noteq> k \<and> k' \<noteq> iid \<longrightarrow> map_of (observe env e m) k' = map_of m k')
      else observe env e m = m"
  proof (cases "duration r < duration e")
    case True
    with a kr have "admits e m" by (simp add: admits_full)
    with a have "observe env e m = createProperty iid (newInteraction env e rn pc) (evictShortest m)"
      using observe_added [of e iid m env rn pc] by simp
    then have obs: "observe env e m = createProperty iid (newInteraction env e rn pc) (delete k m)"
      using a kr by (simp add: evictShortest_full)
    have "iid \<notin> set (map fst (delete k m))"
      using fresh keys_delete_subset [of k m] by blast
    then show ?thesis
      unfolding obs using True \<open>k \<noteq> iid\<close>
      by (simp add: map_of_createProperty map_of_delete del: set_map)
  next
    case False
    with a kr have "\<not> admits e m" by (simp add: admits_full)
    with a have "observe env e m = m" using observe_dropped [of e iid m env] by simp
    with False show ?thesis by simp
  qed
  from mem least outcome
  show "\<exists>k shortest. (k, shortest) \<in> set m
          \<and> (\<forall>x \<in> set m. duration shortest \<le> duration (snd x))
          \<and> (if duration shortest < duration e
              then map_of (observe env e m) k = None
                \<and> map_of (observe env e m) iid = Some (newInteraction env e rn pc)
                \<and> (\<forall>k'. k' \<noteq> k \<and> k' \<noteq> iid \<longrightarrow> map_of (observe env e m) k' = map_of m k')
              else observe env e m = m)"
    by blast
next
  assume b: "length es = 15 \<and> (\<forall>j<15. duration (es ! j) = int j + 1) \<and> distinct (map interactionId es)
      \<and> (\<forall>x \<in> set es. \<exists>i. interactionId x = Some i \<and> i \<noteq> 0)
      \<and> route_name (env_latestRoute env') = Some rn' \<and> rn' \<noteq> []
      \<and> route_context (env_latestRoute env') = Some pc'"
  let ?R = "handleEntries env' (map EventTiming es) []"
  have incr: "sorted_wrt (<) (map duration es)" and durs: "duration ` set (drop 5 es) = {6..15}"
    using fifteen_durations [of es] b by simp_all
  have run: "set ?R = recordOf env' rn' pc' ` set (drop (length es - 10) es)
    \<and> distinct (map fst ?R) \<and> length ?R = min (length es) 10"
    unfolding handleEntries_EventTiming
    using observe_increasing_run [of env' rn' pc' es] incr b by blast
  with b show len: "length ?R = 10" by simp
  from run b show img: "set ?R = recordOf env' rn' pc' ` set (drop 5 es)" by simp
  have "duration ` snd ` recordOf env' rn' pc' ` set (drop 5 es) = duration ` set (drop 5 es)"
    by (simp add: image_image duration_recordOf)
  with img durs show "duration ` snd ` set ?R = {6..15}" by simp
qed

lemma observe_home_room:
  assumes "iid \<noteq> 0" and "map_of m iid = None" and "length m < 10"
  shows "observe homeEnv (eventEntry iid d s) m = createProperty iid (homeInteraction d s) m"
proof -
  have "iid \<notin> set (map fst m)"
    using assms(2) by (simp add: map_of_None_keys del: set_map)
  then have "assign iid (homeInteraction d s) m = createProperty iid (homeInteraction d s) m"
    by (rule assign_new)
  moreover have "evictShortest m = m"
    using assms(3) by (simp add: evictShortest_room MAX_INTERACTIONS_def)
  moreover have "newInteraction homeEnv (eventEntry iid d s) ''/home'' homeContext = homeInteraction d s"
    by (simp add: newInteraction_def homeEnv_def eventEntry_def homeInteraction_def)
  ultimately show ?thesis
    using assms
    by (simp add: observe_def eventEntry_def duplicateFirstInput_def admits_def MAX_INTERACTIONS_def
        homeEnv_def homeRoute_def)
qed

lemma tenRecords_reachable: "afterCalls [(homeEnv, map EventTiming tenEvents)] = tenRecords"
  by (simp add: afterCalls_def handleEntries_def handleEntry_def tenEvents_def tenRecords_def
      observe_home_room isArrayIndex_def)

lemma twoRecords_reachable:
  "afterCalls [(homeEnv, [EventTiming (eventEntry 1 5 0), EventTiming (eventEntry 2 9 3)])] = twoRecords"
  by (simp add: afterCalls_def handleEntries_def handleEntry_def twoRecords_def
      observe_home_room isArrayIndex_def)

text \<open>
  Claim C2 as stated fails: the cache holds the ten records with ids and durations 1 to 10 and
  start time 100; the \<^verbatim>\<open>first-input\<close> entry with the new id 99, duration 7 and start time 100
  arrives with a route available. It is longer than the shortest record (duration 1), yet it
  matches record 7 and is dropped: nothing is evicted and nothing is stored.
\<close>

theorem eviction_rule_counterexample:
  "afterCalls [(homeEnv, map EventTiming tenEvents)] = tenRecords
   \<and> length tenRecords = MAX_INTERACTIONS
   \<and> interactionId (firstInputEntry 99 7 100) = Some 99
   \<and> map_of tenRecords 99 = None
   \<and> routeAvailable (env_latestRoute homeEnv)
   \<and> minInteraction tenRecords = Some (1, homeInteraction 1 100)
   \<and> duration (homeInteraction 1 100) < duration (firstInputEntry 99 7 100)
   \<and> observe homeEnv (firstInputEntry 99 7 100) tenRecords = tenRecords"
proof -
  have "duplicateFirstInput (firstInputEntry 99 7 100) tenRecords"
    by (simp add: duplicateFirstInput_def matchingEntry_def firstInputEntry_def tenRecords_def
        homeInteraction_def)
  then have "observe homeEnv (firstInputEntry 99 7 100) tenRecords = tenRecords"
    by (rule observe_duplicate)
  moreover have "minInteraction tenRecords = Some (1, homeInteraction 1 100)"
    by (simp add: minInteraction_def tenRecords_def shorter_def homeInteraction_def)
  moreover have "map_of tenRecords 99 = None" "length tenRecords = MAX_INTERACTIONS"
    by (simp_all add: tenRecords_def MAX_INTERACTIONS_def)
  moreover have "routeAvailable (env_latestRoute homeEnv)"
    by (simp add: routeAvailable_def homeEnv_def homeRoute_def)
  ultimately show ?thesis
    using tenRecords_reachable by (simp add: firstInputEntry_def homeInteraction_def)
qed

text \<open>
  Claim C3 as stated fails: with records 1 (duration 5) and 2 (duration 9, start time 3) in the
  cache, the \<^verbatim>\<open>first-input\<close> entry with id 1, duration 9 and start time 3 matches record 2 and
  returns early, so record 1 keeps the duration 5 instead of \<open>max 5 9 = 9\<close>.
\<close>

theorem duration_merged_counterexample:
  "afterCalls [(homeEnv, [EventTiming (eventEntry 1 5 0), EventTiming (eventEntry 2 9 3)])] = twoRecords
   \<and> interactionId (firstInputEntry 1 9 3) = Some 1
   \<and> map_of twoRecords 1 = Some (homeInteraction 5 0)
   \<and> max (duration (homeInteraction 5 0)) (duration (firstInputEntry 1 9 3)) = 9
   \<and> map_of (observe homeEnv (firstInputEntry 1 9 3) twoRecords) 1 = Some (homeInteraction 5 0)
   \<and> duration (homeInteraction 5 0) = 5"
proof -
  have "duplicateFirstInput (firstInputEntry 1 9 3) twoRecords"
    by (simp add: duplicateFirstInput_def matchingEntry_def firstInputEntry_def twoRecords_def
        homeInteraction_def)
  then have "observe homeEnv (firstInputEntry 1 9 3) twoRecords = twoRecords"
    by (rule observe_duplicate)
  then show ?thesis
    using twoRecords_reachable by (simp add: firstInputEntry_def homeInteraction_def twoRecords_def)
qed

text \<open>
  Claim C4, as amended. A \<^verbatim>\<open>first-input\<close> entry whose duration and start time are those of
  some record in the cache leaves the cache as it is. Hence an \<^verbatim>\<open>event\<close> entry that is
  stored, followed by a \<^verbatim>\<open>first-input\<close> entry with the same duration and start time (with
  any id, in a later call or in the same batch), leaves exactly one record; and so do the two
  entries of one interaction (the same id) when the \<^verbatim>\<open>first-input\<close> entry comes first.
\<close>

theorem first_input_deduplicated:
  "(entryType e = ''first-input'' \<and> (k, r) \<in> set m \<and> duration r = duration e \<and> startTime r = startTime e
      \<longrightarrow> observe env e m = m)
   \<and> (route_name (env_latestRoute env1) = Some rn \<and> rn \<noteq> [] \<and> route_context (env_latestRoute env1) = Some pc
       \<and> iid \<noteq> 0
      \<longrightarrow> afterCalls
            [(env1, [EventTiming \<lparr>duration = d, startTime = s, entryType = ''event'', interactionId = Some iid\<rparr>]),
             (env2, [EventTiming \<lparr>duration = d, startTime = s, entryType = ''first-input'', interactionId = fid\<rparr>])]
          = [(iid, \<lparr>duration = d, startTime = s, routeName = rn, parentContext = pc,
                   user = env_user env1, activeTransaction = env_activeTransaction env1,
                   replayId = env_replayId env1\<rparr>)]
        \<and> handleEntries env1
            [EventTiming \<lparr>duration = d, startTime = s, entryType = ''event'', interactionId = Some iid\<rparr>,
             EventTiming \<lparr>duration = d, startTime = s, entryType = ''first-input'', interactionId = fid\<rparr>] []
          = [(iid, \<lparr>duration = d, startTime = s, routeName = rn, parentContext = pc,
                   user = env_user env1, activeTransaction = env_activeTransaction env1,
                   replayId = env_replayId env1\<rparr>)]
        \<and> afterCalls
            [(env1, [EventTiming \<lparr>duration = d, startTime = s, entryType = ''first-input'', interactionId = Some iid\<rparr>]),
             (env2, [EventTiming \<lparr>duration = d, startTime = s, entryType = ''event'', interactionId = Some iid\<rparr>])]
          = [(iid, \<lparr>duration = d, startTime = s, routeName = rn, parentContext = pc,
                   user = env_user env1, activeTransaction = env_activeTransaction env1,
                   replayId = env_replayId env1\<rparr>)])"
proof (intro conjI impI)
  assume "entryType e = ''first-input'' \<and> (k, r) \<in> set m \<and> duration r = duration e \<and> startTime r = startTime e"
  then have "duplicateFirstInput e m"
    unfolding duplicateFirstInput_def matchingEntry_iff by blast
  then show "observe env e m = m" by (rule observe_duplicate)
next
  let ?ev = "\<lparr>duration = d, startTime = s, entryType = ''event'', interactionId = Some iid\<rparr>"
  let ?fi = "\<lparr>duration = d, startTime = s, entryType = ''first-input'', interactionId = fid\<rparr>"
  let ?rec = "\<lparr>duration = d, startTime = s, routeName = rn, parentContext = pc,
                   user = env_user env1, activeTransaction = env_activeTransaction env1,
                   replayId = env_replayId env1\<rparr>"
  assume a: "route_name (env_latestRoute env1) = Some rn \<and> rn \<noteq> []
    \<and> route_context (env_latestRoute env1) = Some pc \<and> iid \<noteq> 0"
  then have first: "observe env1 ?ev [] = [(iid, ?rec)]"
    by (simp add: observe_def duplicateFirstInput_def admits_def MAX_INTERACTIONS_def assign_def
        evictShortest_def minInteractionId_def minInteraction_def newInteraction_def)
  have "duplicateFirstInput ?fi [(iid, ?rec)]"
    by (simp add: duplicateFirstInput_def matchingEntry_def)
  then have second: "observe env' ?fi [(iid, ?rec)] = [(iid, ?rec)]" for env'
    by (rule observe_duplicate)
  show "afterCalls [(env1, [EventTiming ?ev]), (env2, [EventTiming ?fi])] = [(iid, ?rec)]"
    by (simp add: afterCalls_def handleEntries_def handleEntry_def first second)
  show "handleEntries env1 [EventTiming ?ev, EventTiming ?fi] [] = [(iid, ?rec)]"
    by (simp add: handleEntries_def handleEntry_def first second)
  let ?fi' = "\<lparr>duration = d, startTime = s, entryType = ''first-input'', interactionId = Some iid\<rparr>"
  from a have first': "observe env1 ?fi' [] = [(iid, ?rec)]"
    by (simp add: observe_def duplicateFirstInput_def matchingEntry_def admits_def
        MAX_INTERACTIONS_def assign_def evictShortest_def minInteractionId_def minInteraction_def
        newInteraction_def)
  from a have second': "observe env2 ?ev [(iid, ?rec)] = [(iid, ?rec)]"
    by (simp add: observe_def duplicateFirstInput_def mergeDuration_def)
  show "afterCalls [(env1, [EventTiming ?fi']), (env2, [EventTiming ?ev])] = [(iid, ?rec)]"
    by (simp add: afterCalls_def handleEntries_def handleEntry_def first' second')
qed

theorem first_input_deduplicated_witness:
  "entryType (firstInputEntry 5 9 3) = ''first-input'' \<and> (2, homeInteraction 9 3) \<in> set twoRecords
   \<and> duration (homeInteraction 9 3) = duration (firstInputEntry 5 9 3)
   \<and> startTime (homeInteraction 9 3) = startTime (firstInputEntry 5 9 3)
   \<and> map_of twoRecords 5 = None
   \<and> observe homeEnv (firstInputEntry 5 9 3) twoRecords = twoRecords
   \<and> afterCalls [(homeEnv, [EventTiming (eventEntry 8 24 1000)]),
                 (homeEnv, [EventTiming (firstInputEntry 9 24 1000)])] = [(8, homeInteraction 24 1000)]
   \<and> length (afterCalls [(homeEnv, [EventTiming (eventEntry 8 24 1000)]),
                         (homeEnv, [EventTiming (firstInputEntry 9 24 1000)])]) = 1"
proof -
  have h1: "entryType (firstInputEntry 5 9 3) = ''first-input'' \<and> (2, homeInteraction 9 3) \<in> set twoRecords
     \<and> duration (homeInteraction 9 3) = duration (firstInputEntry 5 9 3)
     \<and> startTime (homeInteraction 9 3) = startTime (firstInputEntry 5 9 3)"
    by (simp add: firstInputEntry_def twoRecords_def homeInteraction_def)
  have h2: "route_name (env_latestRoute homeEnv) = Some ''/home'' \<and> ''/home'' \<noteq> []
     \<and> route_context (env_latestRoute homeEnv) = Some homeContext \<and> (8 :: nat) \<noteq> 0"
    by (simp add: homeEnv_def homeRoute_def)
  have new: "map_of twoRecords 5 = None" by (simp add: twoRecords_def)
  note inst = first_input_deduplicated [of "firstInputEntry 5 9 3" 2 "homeInteraction 9 3" twoRecords
      homeEnv homeEnv "''/home''" homeContext 8 24 1000 homeEnv "Some 9"]
  from inst h1 have one: "observe homeEnv (firstInputEntry 5 9 3) twoRecords = twoRecords" by blast
  from inst h2
  have "afterCalls [(homeEnv, [EventTiming (eventEntry 8 24 1000)]),
                    (homeEnv, [EventTiming (firstInputEntry 9 24 1000)])]
        = [(8, \<lparr>duration = 24, startTime = 1000, routeName = ''/home'', parentContext = homeContext,
                   user = env_user homeEnv, activeTransaction = env_activeTransaction homeEnv,
                   replayId = env_replayId homeEnv\<rparr>)]"
    unfolding eventEntry_def firstInputEntry_def by blast
  then have two: "afterCalls [(homeEnv, [EventTiming (eventEntry 8 24 1000)]),
                    (homeEnv, [EventTiming (firstInputEntry 9 24 1000)])] = [(8, homeInteraction 24 1000)]"
    by (simp add: homeInteraction_def homeEnv_def)
  from h1 new one two show ?thesis by simp
qed

text \<open>
  Claim C4 as stated fails: the \<^verbatim>\<open>first-input\<close> entry with id 8 is observed first and stored;
  the \<^verbatim>\<open>event\<close> entry with id 9 and the same duration and start time is not tested against
  the records and is stored as well: two records.
\<close>

theorem first_input_deduplicated_counterexample:
  "entryType (firstInputEntry 8 24 1000) = ''first-input''
   \<and> entryType (eventEntry 9 24 1000) = ''event''
   \<and> duration (firstInputEntry 8 24 1000) = duration (eventEntry 9 24 1000)
   \<and> startTime (firstInputEntry 8 24 1000) = startTime (eventEntry 9 24 1000)
   \<and> afterCalls [(homeEnv, [EventTiming (firstInputEntry 8 24 1000)]),
                 (homeEnv, [EventTiming (eventEntry 9 24 1000)])]
       = [(8, homeInteraction 24 1000), (9, homeInteraction 24 1000)]
   \<and> length (afterCalls [(homeEnv, [EventTiming (firstInputEntry 8 24 1000)]),
                         (homeEnv, [EventTiming (eventEntry 9 24 1000)])]) = 2"
proof -
  have first: "observe homeEnv (firstInputEntry 8 24 1000) [] = [(8, homeInteraction 24 1000)]"
    by (simp add: observe_def firstInputEntry_def duplicateFirstInput_def matchingEntry_def admits_def
        MAX_INTERACTIONS_def homeEnv_def homeRoute_def assign_def evictShortest_def
        minInteractionId_def minInteraction_def newInteraction_def homeInteraction_def)
  have second: "observe homeEnv (eventEntry 9 24 1000) [(8, homeInteraction 24 1000)]
      = [(8, homeInteraction 24 1000), (9, homeInteraction 24 1000)]"
    by (simp add: observe_home_room isArrayIndex_def)
  show ?thesis
    by (simp add: afterCalls_def handleEntries_def handleEntry_def first second)
      (simp add: firstInputEntry_def eventEntry_def)
qed

theorem duration_merged_witness:
  "interactionId (eventEntry 2 30 4) = Some 2
   \<and> map_of (afterCalls [(homeEnv, [EventTiming (eventEntry 1 5 0), EventTiming (eventEntry 2 9 3)])]) 2
       = Some (homeInteraction 9 3)
   \<and> \<not> duplicateFirstInput (eventEntry 2 30 4)
       (afterCalls [(homeEnv, [EventTiming (eventEntry 1 5 0), EventTiming (eventEntry 2 9 3)])])
   \<and> map_of (observe noRouteEnv (eventEntry 2 30 4)
         (afterCalls [(homeEnv, [EventTiming (eventEntry 1 5 0), EventTiming (eventEntry 2 9 3)])])) 2
       = Some (homeInteraction 30 3)
   \<and> observe homeEnv (eventEntry 42 80 2) (observe homeEnv (firstInputEntry 42 30 1)
        (observe homeEnv (eventEntry 42 50 0) [])) = [(42, homeInteraction 80 0)]"
proof -
  let ?calls = "[(homeEnv, [EventTiming (eventEntry 1 5 0), EventTiming (eventEntry 2 9 3)])]"
  have h: "interactionId (eventEntry 2 30 4) = Some 2"
    "map_of (afterCalls ?calls) 2 = Some (homeInteraction 9 3)"
    "\<not> duplicateFirstInput (eventEntry 2 30 4) (afterCalls ?calls)"
    unfolding twoRecords_reachable
    by (simp_all add: eventEntry_def twoRecords_def duplicateFirstInput_def)
  have r: "route_name (env_latestRoute homeEnv) = Some ''/home'' \<and> ''/home'' \<noteq> []
     \<and> route_context (env_latestRoute homeEnv) = Some homeContext"
    by (simp add: homeEnv_def homeRoute_def)
  note inst = duration_merged [OF h, of noRouteEnv]
  from inst have "map_of (observe noRouteEnv (eventEntry 2 30 4) (afterCalls ?calls)) 2
       = Some ((homeInteraction 9 3)\<lparr>duration := max (duration (homeInteraction 9 3)) (duration (eventEntry 2 30 4))\<rparr>)"
    by blast
  then have one: "map_of (observe noRouteEnv (eventEntry 2 30 4) (afterCalls ?calls)) 2
       = Some (homeInteraction 30 3)"
    by (simp add: homeInteraction_def eventEntry_def)
  from inst r have "observe homeEnv \<lparr>duration = 80, startTime = 2, entryType = ''event'', interactionId = Some 42\<rparr>
                (observe homeEnv \<lparr>duration = 30, startTime = 1, entryType = ''first-input'', interactionId = Some 42\<rparr>
                  (observe homeEnv \<lparr>duration = 50, startTime = 0, entryType = ''event'', interactionId = Some 42\<rparr> []))
              = [(42, \<lparr>duration = 80, startTime = 0, routeName = ''/home'', parentContext = homeContext,
                      user = env_user homeEnv, activeTransaction = env_activeTransaction homeEnv,
                      replayId = env_replayId homeEnv\<rparr>)]"
    by blast
  then have two: "observe homeEnv (eventEntry 42 80 2) (observe homeEnv (firstInputEntry 42 30 1)
        (observe homeEnv (eventEntry 42 50 0) [])) = [(42, homeInteraction 80 0)]"
    by (simp add: eventEntry_def firstInputEntry_def homeInteraction_def homeEnv_def)
  from h one two show ?thesis by blast
qed

theorem eviction_rule_witness:
  "MAX_INTERACTIONS \<le> length tenRecords \<and> interactionId (eventEntry 99 7 100) = Some 99
   \<and> map_of tenRecords 99 = None \<and> \<not> duplicateFirstInput (eventEntry 99 7 100) tenRecords
   \<and> map_of (observe homeEnv (eventEntry 99 7 100) tenRecords) 99 = Some (homeInteraction 7 100)
   \<and> map_of (observe homeEnv (eventEntry 99 7 100) tenRecords) 1 = None
   \<and> map_of (observe homeEnv (eventEntry 99 7 100) tenRecords) 2 = Some (homeInteraction 2 100)
   \<and> length fifteenEvents = 15 \<and> distinct (map interactionId fifteenEvents)
   \<and> map duration fifteenEvents = [1, 2, 3, 4, 5, 6, 7, 8, 9, 10, 11, 12, 13, 14, 15]
   \<and> length (handleEntries homeEnv (map EventTiming fifteenEvents) []) = 10
   \<and> duration ` snd ` set (handleEntries homeEnv (map EventTiming fifteenEvents) []) = {6..15}"
proof -
  have len: "MAX_INTERACTIONS \<le> length tenRecords" and new: "map_of tenRecords 99 = None"
    and nodup: "\<not> duplicateFirstInput (eventEntry 99 7 100) tenRecords"
    and iid: "interactionId (eventEntry 99 7 100) = Some 99"
    by (simp_all add: tenRecords_def MAX_INTERACTIONS_def duplicateFirstInput_def eventEntry_def)
  have route: "route_name (env_latestRoute homeEnv) = Some ''/home''" "''/home'' \<noteq> []"
    "route_context (env_latestRoute homeEnv) = Some homeContext"
    by (simp_all add: homeEnv_def homeRoute_def)
  have es: "length fifteenEvents = 15" "\<forall>j<15. duration (fifteenEvents ! j) = int j + 1"
    "distinct (map interactionId fifteenEvents)"
    "\<forall>x \<in> set fifteenEvents. \<exists>i. interactionId x = Some i \<and> i \<noteq> 0"
    by (auto simp: fifteenEvents_def eventEntry_def distinct_map inj_on_def)
  have durs: "map duration fifteenEvents = [1, 2, 3, 4, 5, 6, 7, 8, 9, 10, 11, 12, 13, 14, 15]"
    by (simp add: fifteenEvents_def eventEntry_def upt_rec)
  note inst = eviction_rule [of tenRecords "eventEntry 99 7 100" 99 homeEnv "''/home''" homeContext
      fifteenEvents homeEnv "''/home''" homeContext]
  from inst len new nodup iid route
  obtain k shortest where ks: "(k, shortest) \<in> set tenRecords"
    "\<forall>x \<in> set tenRecords. duration shortest \<le> duration (snd x)"
    "if duration shortest < duration (eventEntry 99 7 100)
     then map_of (observe homeEnv (eventEntry 99 7 100) tenRecords) k = None
       \<and> map_of (observe homeEnv (eventEntry 99 7 100) tenRecords) 99
           = Some (newInteraction homeEnv (eventEntry 99 7 100) ''/home'' homeContext)
       \<and> (\<forall>k'. k' \<noteq> k \<and> k' \<noteq> 99 \<longrightarrow>
             map_of (observe homeEnv (eventEntry 99 7 100) tenRecords) k' = map_of tenRecords k')
     else observe homeEnv (eventEntry 99 7 100) tenRecords = tenRecords"
    by auto
  have "(1, homeInteraction 1 100) \<in> set tenRecords" by (simp add: tenRecords_def)
  with ks(2) have "duration shortest \<le> 1" by (force simp: homeInteraction_def)
  moreover from ks(1) have "1 \<le> duration shortest \<and> (duration shortest = 1 \<longrightarrow> k = 1)"
    by (auto simp: tenRecords_def homeInteraction_def)
  ultimately have k: "k = 1" "duration shortest = 1" by auto
  with ks(3) have res: "map_of (observe homeEnv (eventEntry 99 7 100) tenRecords) 1 = None"
    "map_of (observe homeEnv (eventEntry 99 7 100) tenRecords) 99
       = Some (newInteraction homeEnv (eventEntry 99 7 100) ''/home'' homeContext)"
    "map_of (observe homeEnv (eventEntry 99 7 100) tenRecords) 2 = map_of tenRecords 2"
    by (simp_all add: eventEntry_def)
  have "newInteraction homeEnv (eventEntry 99 7 100) ''/home'' homeContext = homeInteraction 7 100"
    by (simp add: newInteraction_def homeEnv_def eventEntry_def homeInteraction_def)
  moreover have "map_of tenRecords 2 = Some (homeInteraction 2 100)"
    by (simp add: tenRecords_def)
  moreover from inst es route
  have "length (handleEntries homeEnv (map EventTiming fifteenEvents) []) = 10"
    "duration ` snd ` set (handleEntries homeEnv (map EventTiming fifteenEvents) []) = {6..15}"
    by blast+
  ultimately show ?thesis
    using len new nodup iid res es(1,3) durs by simp
qed

section \<open>Properties of idle transactions and of the tracker\<close>

lemma heartbeatTick_unchanged:
  "finishReason t = None \<Longrightarrow> lastDuration t = d \<Longrightarrow>
   heartbeatTick d t =
     (if heartbeatMissCount t \<ge> 2
      then t\<lparr>heartbeatMissCount := heartbeatMissCount t + 1, finishReason := Some HeartbeatFailed\<rparr>
      else t\<lparr>heartbeatMissCount := heartbeatMissCount t + 1\<rparr>)"
  by (simp add: heartbeatTick_def Let_def)

lemma heartbeatTick_changed:
  "finishReason t = None \<Longrightarrow> lastDuration t \<noteq> d \<Longrightarrow>
   heartbeatTick d t = t\<lparr>lastDuration := d, heartbeatMissCount := 0\<rparr>"
  by (simp add: heartbeatTick_def Let_def)

lemma heartbeatTick_finished: "finishReason t = Some r \<Longrightarrow> heartbeatTick d t = t"
  by (simp add: heartbeatTick_def)

text \<open>
  Claim C9. A live span whose duration to date is the recorded one at three ticks in a row is
  finished with the reason \<open>heartbeatFailed\<close>, and from a count of zero not before the third
  of them; a tick at which the duration has changed sets the count of misses to zero and
  leaves the span live; so with a change at the second tick the span is still live after the
  third, whatever its duration then.
\<close>

theorem heartbeat_detection:
  "(finishReason t = None \<and> lastDuration t = d
      \<longrightarrow> finishReason (heartbeatTick d (heartbeatTick d (heartbeatTick d t))) = Some HeartbeatFailed)
   \<and> (finishReason t = None \<and> heartbeatMissCount t = 0 \<and> lastDuration t = d
      \<longrightarrow> finishReason (heartbeatTick d (heartbeatTick d t)) = None)
   \<and> (finishReason t = None \<and> lastDuration t \<noteq> d'
      \<longrightarrow> heartbeatMissCount (heartbeatTick d' t) = 0 \<and> finishReason (heartbeatTick d' t) = None)
   \<and> (finishReason t = None \<and> heartbeatMissCount t = 0 \<and> lastDuration t = d \<and> d' \<noteq> d
      \<longrightarrow> finishReason (heartbeatTick d'' (heartbeatTick d' (heartbeatTick d t))) = None)"
proof (intro conjI impI)
  assume a: "finishReason t = None \<and> lastDuration t = d"
  show "finishReason (heartbeatTick d (heartbeatTick d (heartbeatTick d t))) = Some HeartbeatFailed"
  proof (cases "heartbeatMissCount t \<ge> 2")
    case True
    with a have "finishReason (heartbeatTick d t) = Some HeartbeatFailed"
      by (simp add: heartbeatTick_unchanged)
    then show ?thesis by (simp add: heartbeatTick_finished)
  next
    case False
    with a have one: "heartbeatTick d t = t\<lparr>heartbeatMissCount := heartbeatMissCount t + 1\<rparr>"
      by (simp add: heartbeatTick_unchanged)
    show ?thesis
    proof (cases "heartbeatMissCount t = 1")
      case True
      with a one have "finishReason (heartbeatTick d (heartbeatTick d t)) = Some HeartbeatFailed"
        by (simp add: heartbeatTick_unchanged)
      then show ?thesis by (simp add: heartbeatTick_finished)
    next
      case False
      with \<open>\<not> 2 \<le> heartbeatMissCount t\<close> have "heartbeatMissCount t = 0" by simp
      with a one show ?thesis by (simp add: heartbeatTick_unchanged)
    qed
  qed
next
  assume "finishReason t = None \<and> heartbeatMissCount t = 0 \<and> lastDuration t = d"
  then show "finishReason (heartbeatTick d (heartbeatTick d t)) = None"
    by (simp add: heartbeatTick_unchanged)
next
  assume a: "finishReason t = None \<and> lastDuration t \<noteq> d'"
  then show "heartbeatMissCount (heartbeatTick d' t) = 0" by (simp add: heartbeatTick_changed)
  from a show "finishReason (heartbeatTick d' t) = None" by (simp add: heartbeatTick_changed)
next
  assume a: "finishReason t = None \<and> heartbeatMissCount t = 0 \<and> lastDuration t = d \<and> d' \<noteq> d"
  then have "heartbeatTick d' (heartbeatTick d t) = t\<lparr>heartbeatMissCount := 0, lastDuration := d'\<rparr>"
    by (simp add: heartbeatTick_unchanged heartbeatTick_changed)
  with a show "finishReason (heartbeatTick d'' (heartbeatTick d' (heartbeatTick d t))) = None"
    by (simp add: heartbeatTick_def Let_def)
qed

theorem heartbeat_detection_witness:
  "finishReason (startIdleTransaction homeContext (Some 1000) (Some 30000) (Some 5000) True) = None
   \<and> lastDuration (startIdleTransaction homeContext (Some 1000) (Some 30000) (Some 5000) True) = 0
   \<and> heartbeatMissCount (startIdleTransaction homeContext (Some 1000) (Some 30000) (Some 5000) True) = 0
   \<and> finishReason (heartbeatTick 0 (heartbeatTick 0 (heartbeatTick 0
         (startIdleTransaction homeContext (Some 1000) (Some 30000) (Some 5000) True)))) = Some HeartbeatFailed
   \<and> finishReason (heartbeatTick 0 (heartbeatTick 0
         (startIdleTransaction homeContext (Some 1000) (Some 30000) (Some 5000) True))) = None
   \<and> heartbeatMissCount (heartbeatTick 250 (startIdleTransaction homeContext (Some 1000) (Some 30000) (Some 5000) True)) = 0
   \<and> finishReason (heartbeatTick 250 (heartbeatTick 250 (heartbeatTick 0
         (startIdleTransaction homeContext (Some 1000) (Some 30000) (Some 5000) True)))) = None"
proof -
  let ?t = "startIdleTransaction homeContext (Some 1000) (Some 30000) (Some 5000) True"
  have h: "finishReason ?t = None" "lastDuration ?t = 0" "heartbeatMissCount ?t = 0" "(250 :: int) \<noteq> 0"
    by (simp_all add: startIdleTransaction_def)
  note inst = heartbeat_detection [of ?t 0 250 250]
  from inst h show ?thesis by simp
qed

text \<open>
  Claim C10. A click while the transaction of the current scope has the operation
  \<^verbatim>\<open>navigation\<close> or \<^verbatim>\<open>pageload\<close> returns the state as it is: no transaction is added to the
  store, none is finished or changed, and the inflight interaction transaction and the
  latest route are untouched.
\<close>

theorem click_during_route_transaction:
  assumes "lookupTransaction st c = Some t" and "op (tx_context t) = Some opName"
    and "opName = ''navigation'' \<or> opName = ''pageload''"
  shows "registerInteractionTransaction opts (Some c) st = st"
proof -
  have "routeTransactionInProgress st (Some c)"
    using assms by (auto simp: routeTransactionInProgress_def)
  then show ?thesis by (simp add: registerInteractionTransaction_def)
qed

lemma requestFinish_live: "finishReason t = None \<Longrightarrow> requestFinish r t = t\<lparr>finishReason := Some r\<rparr>"
  by (simp add: requestFinish_def)

lemma startRouteSpan_transactions:
  "\<exists>new. transactions (startRouteSpan dop opts p ctx st) = transactions st @ [new]
     \<and> finishReason new = None
     \<and> tx_idleTimeout new = idleTimeout opts \<and> tx_finalTimeout new = finalTimeout opts
     \<and> tx_heartbeatInterval new = heartbeatInterval opts"
  by (simp add: startRouteSpan_def createRouteTransaction_def Let_def startIdleTransaction_def)

lemma startRouteSpan_activeSpan:
  "activeSpan (startRouteSpan dop opts p ctx st) = Some (length (transactions st))"
  by (simp add: startRouteSpan_def createRouteTransaction_def Let_def)

text \<open>
  What the start handlers do for the span that \<open>activeSpan\<close> refers to: when it is live it
  has the reason \<open>external\<close> before the new span is created, and the new span is live.
\<close>

lemma route_span_superseded:
  assumes "activeSpan st = Some i" and "lookupTransaction st i = Some t" and "finishReason t = None"
  shows "lookupTransaction (finishActiveSpan st) i = Some (t\<lparr>finishReason := Some External\<rparr>)"
    and "length (transactions (finishActiveSpan st)) = length (transactions st)"
    and "lookupTransaction (startRouteSpan dop opts p ctx (finishActiveSpan st)) i
           = Some (t\<lparr>finishReason := Some External\<rparr>)"
    and "activeSpan (startRouteSpan dop opts p ctx (finishActiveSpan st)) = Some (length (transactions st))"
    and "\<exists>new. lookupTransaction (startRouteSpan dop opts p ctx (finishActiveSpan st))
                 (length (transactions st)) = Some new \<and> finishReason new = None"
proof -
  from assms(2) have i: "i < length (transactions st)" "transactions st ! i = t"
    by (auto simp: lookupTransaction_def split: if_splits)
  with assms(1,3) have mid: "transactions (finishActiveSpan st)
      = (transactions st)[i := t\<lparr>finishReason := Some External\<rparr>]"
    by (simp add: finishActiveSpan_def onTransaction_def requestFinish_live)
  with i show a: "lookupTransaction (finishActiveSpan st) i = Some (t\<lparr>finishReason := Some External\<rparr>)"
    by (simp add: lookupTransaction_def)
  from mid show len: "length (transactions (finishActiveSpan st)) = length (transactions st)"
    by simp
  obtain new where new: "transactions (startRouteSpan dop opts p ctx (finishActiveSpan st))
      = transactions (finishActiveSpan st) @ [new]" "finishReason new = None"
    using startRouteSpan_transactions by blast
  with i mid show "lookupTransaction (startRouteSpan dop opts p ctx (finishActiveSpan st)) i
           = Some (t\<lparr>finishReason := Some External\<rparr>)"
    by (simp add: lookupTransaction_def nth_append)
  show "activeSpan (startRouteSpan dop opts p ctx (finishActiveSpan st)) = Some (length (transactions st))"
    using len by (simp add: startRouteSpan_activeSpan)
  from new len
  show "\<exists>new. lookupTransaction (startRouteSpan dop opts p ctx (finishActiveSpan st))
                 (length (transactions st)) = Some new \<and> finishReason new = None"
    by (simp add: lookupTransaction_def nth_append)
qed

lemma homeLoaded_eq:
  "homeLoaded =
     \<lparr>transactions =
        [startIdleTransaction
           \<lparr>name = ''/home'', op = Some ''pageload'', sampled = None, trimEnd = Some True,
            traceId = None, parentSpanId = None, parentSampled = None,
            dynamicSamplingContext = None, attributes_source = Some ''url'', data_source = None,
            metadata_source = None\<rparr>
           (Some 1000) (Some 30000) (Some 5000) True],
      activeSpan = Some 0, inflightInteractionTransaction = None,
      latest = \<lparr>route_name = Some ''/home'',
                route_context = Some
                  \<lparr>name = ''/home'', op = Some ''pageload'', sampled = None, trimEnd = Some True,
                   traceId = None, parentSpanId = None, parentSampled = None,
                   dynamicSamplingContext = None, attributes_source = Some ''url'', data_source = None,
                   metadata_source = None\<rparr>\<rparr>\<rparr>"
  by (simp add: homeLoaded_def onStartPageLoadSpan_def startRouteSpan_def createRouteTransaction_def
      finishActiveSpan_def initialState_def Let_def expandContext_def finalizeContext_def
      withDefaultOp_def routeOptions_def noPropagation_def spread_def valueOf_def
      DEFAULT_BROWSER_TRACING_OPTIONS_def)

lemma homeLoaded_span:
  "activeSpan homeLoaded = Some 0"
  "\<exists>t. lookupTransaction homeLoaded 0 = Some t \<and> finishReason t = None
       \<and> op (tx_context t) = Some ''pageload''"
  by (simp_all add: homeLoaded_eq lookupTransaction_def startIdleTransaction_def)



text \<open>
  Construction can fail, but not on a timeout: \<^verbatim>\<open>_experiments\<close> given as \<^verbatim>\<open>undefined\<close>
  survives the spread and the read of its property throws.
\<close>

lemma construction_TypeError:
  "browserTracingIntegration allReturn (nothingGiven\<lparr>given_experiments := IsUndefined\<rparr>) = Inl TypeError"
  by (simp add: browserTracingIntegration_def allReturn_def nothingGiven_def mergeOptions_def
      call_def callIf_def spread_def truthy_def DEFAULT_BROWSER_TRACING_OPTIONS_def)

lemma mergeOptions_timeouts:
  "mergeOptions (given\<lparr>given_idleTimeout := a, given_finalTimeout := b, given_heartbeatInterval := h\<rparr>)
     = (mergeOptions given)\<lparr>idleTimeout := spread (Some 1000) a, finalTimeout := spread (Some 30000) b,
          heartbeatInterval := spread (Some 5000) h\<rparr>"
  by (simp add: mergeOptions_def DEFAULT_BROWSER_TRACING_OPTIONS_def)

text \<open>
  Claim C8, as amended. Construction validates no timeout. Replacing the three timeouts that
  are given by any others, non-positive ones included, changes neither whether the construction
  throws nor what it throws, and changes the integration returned only in these three options;
  an integration that is returned holds each timeout as given (the default 1000, 30000 or 5000
  for an absent key); and every start of a navigation or pageload span, in any state, passes
  the three options unchanged to the idle transaction it creates.
\<close>

theorem construction_unvalidated:
  "browserTracingIntegration c
       (given\<lparr>given_idleTimeout := a, given_finalTimeout := b, given_heartbeatInterval := h\<rparr>)
     = map_sum id
         (\<lambda>i. i\<lparr>options := (options i)\<lparr>idleTimeout := spread (Some 1000) a,
                     finalTimeout := spread (Some 30000) b,
                     heartbeatInterval := spread (Some 5000) h\<rparr>\<rparr>)
         (browserTracingIntegration c given)
   \<and> (browserTracingIntegration c given = Inr i
      \<longrightarrow> idleTimeout (options i) = spread (Some 1000) (given_idleTimeout given)
        \<and> finalTimeout (options i) = spread (Some 30000) (given_finalTimeout given)
        \<and> heartbeatInterval (options i) = spread (Some 5000) (given_heartbeatInterval given))
   \<and> (\<exists>new. transactions (onStartNavigationSpan opts p ctx st) = transactions (finishActiveSpan st) @ [new]
          \<and> tx_idleTimeout new = idleTimeout opts \<and> tx_finalTimeout new = finalTimeout opts
          \<and> tx_heartbeatInterval new = heartbeatInterval opts)
   \<and> (\<exists>new. transactions (onStartPageLoadSpan opts p ctx st) = transactions (finishActiveSpan st) @ [new]
          \<and> tx_idleTimeout new = idleTimeout opts \<and> tx_finalTimeout new = finalTimeout opts
          \<and> tx_heartbeatInterval new = heartbeatInterval opts)"
proof (intro conjI)
  show "browserTracingIntegration c
       (given\<lparr>given_idleTimeout := a, given_finalTimeout := b, given_heartbeatInterval := h\<rparr>)
     = map_sum id
         (\<lambda>i. i\<lparr>options := (options i)\<lparr>idleTimeout := spread (Some 1000) a,
                     finalTimeout := spread (Some 30000) b,
                     heartbeatInterval := spread (Some 5000) h\<rparr>\<rparr>)
         (browserTracingIntegration c given)"
    unfolding browserTracingIntegration_def mergeOptions_timeouts
    by (simp add: call_def callIf_def Let_def split: option.splits)
  show "browserTracingIntegration c given = Inr i
      \<longrightarrow> idleTimeout (options i) = spread (Some 1000) (given_idleTimeout given)
        \<and> finalTimeout (options i) = spread (Some 30000) (given_finalTimeout given)
        \<and> heartbeatInterval (options i) = spread (Some 5000) (given_heartbeatInterval given)"
  proof
    assume "browserTracingIntegration c given = Inr i"
    then have "options i = mergeOptions given"
      by (auto simp: browserTracingIntegration_def call_def callIf_def Let_def
          split: option.splits if_splits)
    then show "idleTimeout (options i) = spread (Some 1000) (given_idleTimeout given)
        \<and> finalTimeout (options i) = spread (Some 30000) (given_finalTimeout given)
        \<and> heartbeatInterval (options i) = spread (Some 5000) (given_heartbeatInterval given)"
      by (simp add: mergeOptions_def DEFAULT_BROWSER_TRACING_OPTIONS_def)
  qed
  show "\<exists>new. transactions (onStartNavigationSpan opts p ctx st) = transactions (finishActiveSpan st) @ [new]
          \<and> tx_idleTimeout new = idleTimeout opts \<and> tx_finalTimeout new = finalTimeout opts
          \<and> tx_heartbeatInterval new = heartbeatInterval opts"
    unfolding onStartNavigationSpan_def
    using startRouteSpan_transactions [of "''navigation''" opts p ctx "finishActiveSpan st"] by blast
  show "\<exists>new. transactions (onStartPageLoadSpan opts p ctx st) = transactions (finishActiveSpan st) @ [new]
          \<and> tx_idleTimeout new = idleTimeout opts \<and> tx_finalTimeout new = finalTimeout opts
          \<and> tx_heartbeatInterval new = heartbeatInterval opts"
    unfolding onStartPageLoadSpan_def
    using startRouteSpan_transactions [of "''pageload''" opts p ctx "finishActiveSpan st"] by blast
qed

theorem construction_unvalidated_witness:
  "(\<exists>i. browserTracingIntegration allReturn (nothingGiven\<lparr>given_finalTimeout := Is 250\<rparr>) = Inr i
      \<and> idleTimeout (options i) = Some 1000 \<and> finalTimeout (options i) = Some 250
      \<and> heartbeatInterval (options i) = Some 5000)
   \<and> (\<exists>new. transactions (onStartNavigationSpan (mergeOptions badTimeouts) noPropagation
                 (routeOptions ''/about'') homeLoaded)
             = transactions (finishActiveSpan homeLoaded) @ [new]
         \<and> tx_idleTimeout new = Some (- 5) \<and> tx_finalTimeout new = Some 0
         \<and> tx_heartbeatInterval new = Some (- 1))"
proof (rule conjI)
  obtain i where i: "browserTracingIntegration allReturn (nothingGiven\<lparr>given_finalTimeout := Is 250\<rparr>) = Inr i"
    by (simp add: browserTracingIntegration_def allReturn_def nothingGiven_def mergeOptions_def
        call_def callIf_def spread_def truthy_def DEFAULT_BROWSER_TRACING_OPTIONS_def)
  note inst = construction_unvalidated [where c = allReturn
      and given = "nothingGiven\<lparr>given_finalTimeout := Is 250\<rparr>" and i = i
      and opts = "mergeOptions badTimeouts" and p = noPropagation
      and ctx = "routeOptions ''/about''" and st = homeLoaded]
  have stored: "idleTimeout (options i) = Some 1000 \<and> finalTimeout (options i) = Some 250
      \<and> heartbeatInterval (options i) = Some 5000"
    using inst [THEN conjunct2, THEN conjunct1] i by (simp add: nothingGiven_def spread_def)
  with i show "\<exists>i. browserTracingIntegration allReturn (nothingGiven\<lparr>given_finalTimeout := Is 250\<rparr>) = Inr i
      \<and> idleTimeout (options i) = Some 1000 \<and> finalTimeout (options i) = Some 250
      \<and> heartbeatInterval (options i) = Some 5000"
    by (intro exI [of _ i]) simp
  have bad: "idleTimeout (mergeOptions badTimeouts) = Some (- 5)"
    "finalTimeout (mergeOptions badTimeouts) = Some 0"
    "heartbeatInterval (mergeOptions badTimeouts) = Some (- 1)"
    by (simp_all add: mergeOptions_def badTimeouts_def nothingGiven_def spread_def)
  show "\<exists>new. transactions (onStartNavigationSpan (mergeOptions badTimeouts) noPropagation
                 (routeOptions ''/about'') homeLoaded)
             = transactions (finishActiveSpan homeLoaded) @ [new]
         \<and> tx_idleTimeout new = Some (- 5) \<and> tx_finalTimeout new = Some 0
         \<and> tx_heartbeatInterval new = Some (- 1)"
    using inst [THEN conjunct2, THEN conjunct2, THEN conjunct1] unfolding bad .
qed

text \<open>
  Claim C8 as stated fails: with the idle timeout \<open>-5\<close>, the final timeout \<open>0\<close> and the
  heartbeat interval \<open>-1\<close> the construction returns an integration that holds these values.
\<close>

theorem construction_counterexample:
  "given_idleTimeout badTimeouts = Is (- 5) \<and> given_finalTimeout badTimeouts = Is 0
   \<and> given_heartbeatInterval badTimeouts = Is (- 1)
   \<and> (\<exists>i. browserTracingIntegration allReturn badTimeouts = Inr i
         \<and> idleTimeout (options i) = Some (- 5) \<and> finalTimeout (options i) = Some 0
         \<and> heartbeatInterval (options i) = Some (- 1))"
  by (simp add: browserTracingIntegration_def badTimeouts_def nothingGiven_def mergeOptions_def
      allReturn_def call_def callIf_def spread_def truthy_def DEFAULT_BROWSER_TRACING_OPTIONS_def)

theorem click_during_route_transaction_witness:
  "\<exists>t. lookupTransaction homeLoaded 0 = Some t \<and> op (tx_context t) = Some ''pageload''
     \<and> registerInteractionTransaction DEFAULT_BROWSER_TRACING_OPTIONS (Some 0) homeLoaded = homeLoaded"
proof -
  obtain t where t: "lookupTransaction homeLoaded 0 = Some t" "op (tx_context t) = Some ''pageload''"
    using homeLoaded_span(2) by blast
  then have "registerInteractionTransaction DEFAULT_BROWSER_TRACING_OPTIONS (Some 0) homeLoaded = homeLoaded"
    using click_during_route_transaction [of homeLoaded 0 t "''pageload''"] by simp
  with t show ?thesis by blast
qed

end
